theory Spec2Isabelle
  imports Main
begin

section \<open>Python values used by the outline editor\<close>

text \<open>
  The exceptions the modelled code can raise. A stateful operation returns the pair of
  its outcome (\<open>Inl\<close> the exception, \<open>Inr\<close> the returned value) and the state
  reached: Python keeps every mutation made before an exception was raised.
\<close>

datatype py_error = IndexError | AttributeError

type_synonym 'a result = "py_error + 'a"

text \<open>
  Index normalisation of Python sequences: \<open>xs[i]\<close> accepts \<open>-len \<le> i < len\<close>,
  a negative index counting from the end; anything else raises IndexError.
\<close>

definition py_index :: "nat \<Rightarrow> int \<Rightarrow> nat option" where
  "py_index n i =
     (if 0 \<le> i \<and> i < int n then Some (nat i)
      else if - int n \<le> i \<and> i < 0 then Some (nat (i + int n))
      else None)"

definition py_get :: "'a list \<Rightarrow> int \<Rightarrow> 'a result" where
  "py_get xs i = (case py_index (length xs) i of
                    None \<Rightarrow> Inl IndexError
                  | Some k \<Rightarrow> Inr (xs ! k))"

definition py_set :: "'a list \<Rightarrow> int \<Rightarrow> 'a \<Rightarrow> 'a list result" where
  "py_set xs i v = (case py_index (length xs) i of
                      None \<Rightarrow> Inl IndexError
                    | Some k \<Rightarrow> Inr (xs[k := v]))"

text \<open>\<open>list.insert(i, v)\<close> never raises: the position is clamped into \<open>[0, len]\<close>.\<close>

definition py_insert :: "'a list \<Rightarrow> int \<Rightarrow> 'a \<Rightarrow> 'a list" where
  "py_insert xs i v =
     (let n = int (length xs);
          j = (if i < 0 then max 0 (i + n) else min i n)
      in take (nat j) xs @ v # drop (nat j) xs)"

text \<open>Slices \<open>s[:i]\<close> and \<open>s[i:]\<close>; a negative bound counts from the end.\<close>

definition py_upto :: "'a list \<Rightarrow> int \<Rightarrow> 'a list" where
  "py_upto s i = (if 0 \<le> i then take (nat i) s else take (nat (int (length s) + i)) s)"

definition py_from :: "'a list \<Rightarrow> int \<Rightarrow> 'a list" where
  "py_from s i = (if 0 \<le> i then drop (nat i) s else drop (nat (int (length s) + i)) s)"

text \<open>\<open>str(n)\<close> for a non-negative integer: its decimal digits.\<close>

definition digit :: "nat \<Rightarrow> char" where
  "digit d = char_of (48 + d)"

fun str_nat :: "nat \<Rightarrow> string" where
  "str_nat n = (if n < 10 then [digit n] else str_nat (n div 10) @ [digit (n mod 10)])"

declare str_nat.simps [simp del]

text \<open>\<open>sep.join(ws)\<close>.\<close>

fun join :: "string \<Rightarrow> string list \<Rightarrow> string" where
  "join sep [] = []"
| "join sep [w] = w"
| "join sep (w # v # ws) = w @ sep @ join sep (v # ws)"

section \<open>ListManager.py\<close>

text \<open>
  \<open>ListItem\<close>. The attribute \<open>number\<close> is not set by the constructor: it exists only
  once \<open>renumber_items\<close> has reached the item (\<open>None\<close> models the missing attribute).
  \<open>ident\<close> is the field \<open>id\<close>; its value \<open>os.urandom(4).hex()\<close> is an argument of the
  model. \<open>children\<close> and \<open>parent\<close> are never written after construction.
\<close>

record list_item =
  content :: string
  level :: int
  ident :: string
  children :: "string list"
  parent :: "string option"
  collapsed :: bool
  metadata :: "(string \<times> string) list"
  number :: "string option"

definition ListItem :: "string \<Rightarrow> int \<Rightarrow> string \<Rightarrow> list_item" where
  "ListItem c l new_id =
     \<lparr>content = c, level = l, ident = new_id, children = [], parent = None,
      collapsed = False, metadata = [], number = None\<rparr>"

text \<open>
  \<open>ListManager\<close>: the ordered items and the insertion cursor. The field \<open>root\<close>
  (a sentinel item that no method reads) is left out.
\<close>

record list_manager =
  items :: "list_item list"
  current_position :: int

definition ListManager :: list_manager where
  "ListManager = \<lparr>items = [], current_position = 0\<rparr>"

subsection \<open>renumber_items\<close>

text \<open>The inner loop \<open>for i in range(level + 1, 11): counters[i] = 0\<close>.\<close>

fun reset_counters :: "int list \<Rightarrow> nat list \<Rightarrow> nat list result" where
  "reset_counters [] cs = Inr cs"
| "reset_counters (i # is) cs =
     (case py_set cs i 0 of
        Inl e \<Rightarrow> Inl e
      | Inr cs' \<Rightarrow> reset_counters is cs')"

text \<open>
  One iteration of the outer loop for an item at level \<open>lvl\<close>: the new counters and the
  number string. The reads \<open>counters[i]\<close> for \<open>i\<close> in \<open>range(level + 1)\<close> are in range
  whenever they are reached, since \<open>counters[level] += 1\<close> has succeeded before.
\<close>

definition renumber_step :: "nat list \<Rightarrow> int \<Rightarrow> (nat list \<times> string) result" where
  "renumber_step counters lvl =
     (case reset_counters [lvl + 1 .. 10] counters of
        Inl e \<Rightarrow> Inl e
      | Inr c1 \<Rightarrow>
          (case py_get c1 lvl of
             Inl e \<Rightarrow> Inl e
           | Inr v \<Rightarrow>
               (case py_set c1 lvl (v + 1) of
                  Inl e \<Rightarrow> Inl e
                | Inr c2 \<Rightarrow>
                    Inr (c2, join ''.'' (map (\<lambda>i. str_nat (c2 ! nat i)) [0 .. lvl])))))"

text \<open>
  The outer loop over the items. When an iteration raises, the items before it keep
  their new numbers and the rest are untouched.
\<close>

fun renumber_loop :: "nat list \<Rightarrow> list_item list \<Rightarrow> list_item list \<times> py_error option" where
  "renumber_loop counters [] = ([], None)"
| "renumber_loop counters (it # its) =
     (case renumber_step counters (level it) of
        Inl e \<Rightarrow> (it # its, Some e)
      | Inr (counters', num) \<Rightarrow>
          (case renumber_loop counters' its of
             (its', r) \<Rightarrow> (it\<lparr>number := Some num\<rparr> # its', r)))"

definition renumber_items :: "list_manager \<Rightarrow> unit result \<times> list_manager" where
  "renumber_items lm =
     (case renumber_loop (replicate 11 0) (items lm) of
        (its', None) \<Rightarrow> (Inr (), lm\<lparr>items := its'\<rparr>)
      | (its', Some e) \<Rightarrow> (Inl e, lm\<lparr>items := its'\<rparr>))"

subsection \<open>add_item, delete_item, indent_item, outdent_item\<close>

definition get_recommended_level :: "list_manager \<Rightarrow> int result" where
  "get_recommended_level lm =
     (if items lm = [] \<or> current_position lm = 0 then Inr 0
      else (case py_get (items lm) (current_position lm - 1) of
              Inl e \<Rightarrow> Inl e
            | Inr it \<Rightarrow> Inr (level it)))"

text \<open>
  \<open>add_item(content, level)\<close>; \<open>new_id\<close> is the identifier drawn for the new item.
  The returned item is the object that sits in the list, so it is read back from the
  list after renumbering, at the index where it was put.
\<close>

definition insert_index :: "list_manager \<Rightarrow> nat" where
  "insert_index lm =
     (let n = int (length (items lm)); p = current_position lm
      in if p < n then (if p < 0 then nat (max 0 (p + n)) else nat p) else length (items lm))"

definition add_item :: "string \<Rightarrow> int option \<Rightarrow> string \<Rightarrow> list_manager
                          \<Rightarrow> list_item result \<times> list_manager" where
  "add_item c lvl new_id lm =
     (case (case lvl of None \<Rightarrow> get_recommended_level lm | Some l \<Rightarrow> Inr l) of
        Inl e \<Rightarrow> (Inl e, lm)
      | Inr l \<Rightarrow>
          (let new_item = ListItem c l new_id;
               k = insert_index lm;
               its = (if current_position lm < int (length (items lm))
                      then py_insert (items lm) (current_position lm) new_item
                      else items lm @ [new_item]);
               lm1 = lm\<lparr>items := its, current_position := current_position lm + 1\<rparr>
           in (case renumber_items lm1 of
                 (Inl e, lm2) \<Rightarrow> (Inl e, lm2)
               | (Inr _, lm2) \<Rightarrow> (Inr (items lm2 ! k), lm2))))"

definition delete_item :: "int \<Rightarrow> list_manager \<Rightarrow> unit result \<times> list_manager" where
  "delete_item index lm =
     (if 0 \<le> index \<and> index < int (length (items lm)) then
        (let its = take (nat index) (items lm) @ drop (Suc (nat index)) (items lm)
         in (case renumber_items (lm\<lparr>items := its\<rparr>) of
               (Inl e, lm2) \<Rightarrow> (Inl e, lm2)
             | (Inr _, lm2) \<Rightarrow>
                 (Inr (), lm2\<lparr>current_position :=
                                  min (current_position lm2) (int (length (items lm2)) - 1)\<rparr>)))
      else (Inr (), lm))"

definition indent_item :: "int \<Rightarrow> list_manager \<Rightarrow> unit result \<times> list_manager" where
  "indent_item index lm =
     (if 0 \<le> index \<and> index < int (length (items lm)) then
        (let it = items lm ! nat index
         in renumber_items
              (lm\<lparr>items := (items lm)[nat index := it\<lparr>level := min (level it + 1) 10\<rparr>]\<rparr>))
      else (Inr (), lm))"

definition outdent_item :: "int \<Rightarrow> list_manager \<Rightarrow> unit result \<times> list_manager" where
  "outdent_item index lm =
     (if 0 \<le> index \<and> index < int (length (items lm)) then
        (let it = items lm ! nat index
         in renumber_items
              (lm\<lparr>items := (items lm)[nat index := it\<lparr>level := max (level it - 1) 0\<rparr>]\<rparr>))
      else (Inr (), lm))"

definition toggle_collapse :: "int \<Rightarrow> list_manager \<Rightarrow> list_manager" where
  "toggle_collapse index lm =
     (if 0 \<le> index \<and> index < int (length (items lm)) then
        (let it = items lm ! nat index
         in lm\<lparr>items := (items lm)[nat index := it\<lparr>collapsed := \<not> collapsed it\<rparr>]\<rparr>)
      else lm)"

subsection \<open>Strings and text files\<close>

text \<open>
  A character of the model is a code point below 256. \<open>is_space\<close> is \<open>str.isspace\<close> on
  that range; \<open>strip\<close>, \<open>lstrip\<close> and \<open>split\<close> without argument all use it.
\<close>

definition LF :: char where
  "LF = CHR 0x0A"

definition CR :: char where
  "CR = CHR 0x0D"

definition is_space :: "char \<Rightarrow> bool" where
  "is_space c =
     (let n = (of_char c :: nat)
      in (9 \<le> n \<and> n \<le> 13) \<or> (28 \<le> n \<and> n \<le> 32) \<or> n = 133 \<or> n = 160)"

definition lstrip :: "string \<Rightarrow> string" where
  "lstrip s = dropWhile is_space s"

definition rstrip :: "string \<Rightarrow> string" where
  "rstrip s = rev (dropWhile is_space (rev s))"

definition strip :: "string \<Rightarrow> string" where
  "strip s = lstrip (rstrip s)"

text \<open>
  \<open>s.split()\<close>: the maximal runs of non-space characters; \<open>w\<close> is the word being read.
\<close>

fun split_words :: "string \<Rightarrow> string \<Rightarrow> string list" where
  "split_words w [] = (if w = [] then [] else [w])"
| "split_words w (c # cs) =
     (if is_space c then (if w = [] then split_words [] cs else w # split_words [] cs)
      else split_words (w @ [c]) cs)"

definition split_ws :: "string \<Rightarrow> string list" where
  "split_ws s = split_words [] s"

text \<open>
  The file system is a map from paths to file contents. Opening for writing creates or
  truncates the file; failures of the operating system other than a missing file on
  reading are not modelled. Writing does not translate line ends (POSIX); reading in
  text mode translates \<open>\r\n\<close> and \<open>\r\<close> to \<open>\n\<close>.
\<close>

type_synonym filesystem = "string \<Rightarrow> string option"

fun universal_newlines :: "string \<Rightarrow> string" where
  "universal_newlines [] = []"
| "universal_newlines [c] = [if c = CR then LF else c]"
| "universal_newlines (c # d # ds) =
     (if c = CR \<and> d = LF then LF # universal_newlines ds
      else if c = CR then LF # universal_newlines (d # ds)
      else c # universal_newlines (d # ds))"

text \<open>Iterating over a text file: each line keeps its final \<open>\n\<close>.\<close>

fun lines_acc :: "string \<Rightarrow> string \<Rightarrow> string list" where
  "lines_acc cur [] = (if cur = [] then [] else [cur])"
| "lines_acc cur (c # cs) =
     (if c = LF then (cur @ [c]) # lines_acc [] cs else lines_acc (cur @ [c]) cs)"

definition file_lines :: "string \<Rightarrow> string list" where
  "file_lines s = lines_acc [] s"

subsection \<open>save_to_file, load_from_file\<close>

text \<open>
  The text written so far is kept when \<open>item.number\<close> raises AttributeError: the
  \<open>with\<close> block closes the file.
\<close>

fun write_items :: "list_item list \<Rightarrow> string \<Rightarrow> string \<times> py_error option" where
  "write_items [] text = (text, None)"
| "write_items (it # its) text =
     (case number it of
        None \<Rightarrow> (text, Some AttributeError)
      | Some n \<Rightarrow>
          write_items its
            (text @ replicate (4 * nat (level it)) CHR '' '' @ n @ '' '' @ content it @ [LF]))"

definition save_to_file :: "string \<Rightarrow> list_manager \<Rightarrow> filesystem
                              \<Rightarrow> unit result \<times> filesystem" where
  "save_to_file fname lm fs =
     (case write_items (items lm) [] of
        (text, None) \<Rightarrow> (Inr (), fs(fname \<mapsto> text))
      | (text, Some e) \<Rightarrow> (Inl e, fs(fname \<mapsto> text)))"

text \<open>
  The loop of \<open>load_from_file\<close> over the lines; \<open>ids k\<close> is the identifier drawn for the
  \<open>k\<close>-th item created. Only FileNotFoundError is caught, so an exception of
  \<open>add_item\<close> leaves the loop.
\<close>

fun load_lines :: "(nat \<Rightarrow> string) \<Rightarrow> nat \<Rightarrow> string list \<Rightarrow> list_manager
                     \<Rightarrow> unit result \<times> list_manager" where
  "load_lines ids k [] lm = (Inr (), lm)"
| "load_lines ids k (line # rest) lm =
     (if strip line \<noteq> [] then
        (let lvl = (int (length line) - int (length (lstrip line))) div 4;
             c = join '' '' (tl (split_ws (strip line)))
         in (case add_item c (Some lvl) (ids k) lm of
               (Inl e, lm') \<Rightarrow> (Inl e, lm')
             | (Inr _, lm') \<Rightarrow> load_lines ids (Suc k) rest lm'))
      else load_lines ids k rest lm)"

definition load_from_file :: "string \<Rightarrow> (nat \<Rightarrow> string) \<Rightarrow> filesystem \<Rightarrow> list_manager
                                \<Rightarrow> unit result \<times> list_manager" where
  "load_from_file fname ids fs lm =
     (let lm0 = lm\<lparr>items := [], current_position := 0\<rparr>
      in (case fs fname of
            None \<Rightarrow> (Inr (), lm0)
          | Some text \<Rightarrow> load_lines ids 0 (file_lines (universal_newlines text)) lm0))"

section \<open>Editor.py\<close>

datatype Mode = NORMAL | INSERT | VISUAL | COMMAND

record editor =
  list_manager :: list_manager
  mode :: Mode
  current_line :: int
  top_line :: int
  filename :: string
  cursor_x :: int
  enter_count :: int

text \<open>The key codes of the curses library that the handlers compare with.\<close>

definition KEY_DOWN :: int where "KEY_DOWN = 258"
definition KEY_UP :: int where "KEY_UP = 259"
definition KEY_LEFT :: int where "KEY_LEFT = 260"
definition KEY_RIGHT :: int where "KEY_RIGHT = 261"
definition KEY_BACKSPACE :: int where "KEY_BACKSPACE = 263"
definition KEY_DC :: int where "KEY_DC = 330"
definition KEY_BTAB :: int where "KEY_BTAB = 353"

text \<open>
  A call of a ListManager method from a handler: when it raises, the handler is left
  with the manager as the method left it; otherwise the handler goes on with \<open>k\<close> and
  returns True.
\<close>

definition lm_call :: "'a result \<times> list_manager \<Rightarrow> editor \<Rightarrow> (editor \<Rightarrow> editor)
                         \<Rightarrow> bool result \<times> editor" where
  "lm_call r ed k =
     (case r of
        (Inl e, lm') \<Rightarrow> (Inl e, ed\<lparr>list_manager := lm'\<rparr>)
      | (Inr _, lm') \<Rightarrow> (Inr True, k (ed\<lparr>list_manager := lm'\<rparr>)))"

text \<open>
  \<open>current_item.content = s\<close>: \<open>current_item\<close> is the object at index \<open>k\<close> of the
  manager's list, so the assignment is seen there.
\<close>

definition set_content :: "nat \<Rightarrow> string \<Rightarrow> editor \<Rightarrow> editor" where
  "set_content k s ed =
     (let lm = list_manager ed
      in ed\<lparr>list_manager := lm\<lparr>items := (items lm)[k := (items lm ! k)\<lparr>content := s\<rparr>]\<rparr>\<rparr>)"

subsection \<open>handle_insert_mode\<close>

definition handle_insert_mode :: "int \<Rightarrow> string \<Rightarrow> editor \<Rightarrow> bool result \<times> editor" where
  "handle_insert_mode ch new_id ed =
     (let lm = list_manager ed in
      if items lm = [] then
        lm_call (add_item [] None new_id lm) ed (\<lambda>e. e\<lparr>current_line := 0\<rparr>)
      else
       (case py_index (length (items lm)) (current_line ed) of
          None \<Rightarrow> (Inl IndexError, ed)
        | Some k \<Rightarrow>
           (let current_item = items lm ! k;
                c = content current_item;
                cx = cursor_x ed;
                ed0 = ed\<lparr>enter_count := 0\<rparr>
            in
            if ch = 27 then (Inr True, ed\<lparr>mode := NORMAL, enter_count := 0\<rparr>)
            else if ch = 10 then
              (let ed1 = ed\<lparr>enter_count := enter_count ed + 1\<rparr> in
               if enter_count ed1 = 2 then
                 lm_call (add_item [] (Some (level current_item)) new_id
                            (lm\<lparr>current_position := current_line ed + 1\<rparr>))
                   ed1 (\<lambda>e. e\<lparr>current_line := current_line e + 1, enter_count := 0\<rparr>)
               else
                 (Inr True, (set_content k (py_upto c cx @ [LF] @ py_from c cx) ed1)
                              \<lparr>cursor_x := cx + 1\<rparr>))
            else if ch = 9 then
              lm_call (indent_item (current_line ed) lm) ed0 id
            else if ch = KEY_BTAB then
              lm_call (outdent_item (current_line ed) lm) ed0 id
            else if ch = KEY_BACKSPACE \<or> ch = 127 \<or> ch = 8 then
              (if level current_item > 0 \<and> cx = 0 then
                 lm_call (outdent_item (current_line ed) lm) ed0 id
               else if cx = 0 \<and> current_line ed > 0 then
                 (case py_index (length (items lm)) (current_line ed - 1) of
                    None \<Rightarrow> (Inl IndexError, ed0)
                  | Some p \<Rightarrow>
                     (let prev_item = items lm ! p;
                          prev_content_length = int (length (content prev_item));
                          lm1 = lm\<lparr>items := (items lm)
                                   [p := prev_item\<lparr>content := content prev_item @ c\<rparr>]\<rparr>
                      in lm_call (delete_item (current_line ed) lm1) ed0
                           (\<lambda>e. e\<lparr>current_line := current_line e - 1,
                                   cursor_x := prev_content_length\<rparr>)))
               else if cx > 0 then
                 (Inr True, (set_content k (py_upto c (cx - 1) @ py_from c cx) ed0)
                              \<lparr>cursor_x := cx - 1\<rparr>)
               else (Inr True, ed0))
            else if ch = KEY_DC then
              (if cx < int (length c) then
                 (Inr True, set_content k (py_upto c cx @ py_from c (cx + 1)) ed0)
               else (Inr True, ed0))
            else if ch = KEY_LEFT then
              (Inr True, ed0\<lparr>cursor_x := max 0 (cx - 1)\<rparr>)
            else if ch = KEY_RIGHT then
              (Inr True, ed0\<lparr>cursor_x := min (int (length c)) (cx + 1)\<rparr>)
            else if ch = KEY_UP \<and> current_line ed > 0 then
              (case py_get (items lm) (current_line ed - 1) of
                 Inl e \<Rightarrow> (Inl e, ed0\<lparr>current_line := current_line ed - 1\<rparr>)
               | Inr it \<Rightarrow>
                   (Inr True, ed0\<lparr>current_line := current_line ed - 1,
                                  cursor_x := min cx (int (length (content it)))\<rparr>))
            else if ch = KEY_DOWN \<and> current_line ed < int (length (items lm)) - 1 then
              (case py_get (items lm) (current_line ed + 1) of
                 Inl e \<Rightarrow> (Inl e, ed0\<lparr>current_line := current_line ed + 1\<rparr>)
               | Inr it \<Rightarrow>
                   (Inr True, ed0\<lparr>current_line := current_line ed + 1,
                                  cursor_x := min cx (int (length (content it)))\<rparr>))
            else if 32 \<le> ch \<and> ch \<le> 126 then
              (Inr True, (set_content k (py_upto c cx @ [char_of ch] @ py_from c cx) ed0)
                           \<lparr>cursor_x := cx + 1\<rparr>)
            else (Inr True, ed))))"

subsection \<open>handle_normal_mode\<close>

text \<open>
  \<open>nxt\<close> is the key that the nested \<open>getch()\<close> of the \<open>dd\<close> gesture returns; it is read
  only when \<open>ch\<close> is \<open>d\<close>. The local \<open>items\<close> is the manager's list object itself, so
  \<open>len(items)\<close> after \<open>delete_item\<close> is the new length.
\<close>

definition handle_normal_mode :: "int \<Rightarrow> int \<Rightarrow> string \<Rightarrow> editor \<Rightarrow> filesystem
                                    \<Rightarrow> (bool result \<times> editor) \<times> filesystem" where
  "handle_normal_mode ch nxt new_id ed fs =
     (let lm = list_manager ed in
      if ch = 105 then
        (let ed1 = ed\<lparr>mode := INSERT\<rparr>;
             r = (if items lm = [] then lm_call (add_item [] None new_id lm) ed1 id
                  else (Inr True, ed1))
         in (case r of
               (Inl e, ed2) \<Rightarrow> ((Inl e, ed2), fs)
             | (Inr _, ed2) \<Rightarrow>
                 (case py_get (items (list_manager ed2)) (current_line ed2) of
                    Inl e \<Rightarrow> ((Inl e, ed2), fs)
                  | Inr it \<Rightarrow>
                      ((Inr True, ed2\<lparr>cursor_x := int (length (content it))\<rparr>), fs))))
      else if items lm = [] then ((Inr True, ed), fs)
      else if ch = 111 then
        (lm_call (add_item [] None new_id (lm\<lparr>current_position := current_line ed + 1\<rparr>)) ed
           (\<lambda>e. e\<lparr>current_line := current_line e + 1, mode := INSERT, cursor_x := 0\<rparr>), fs)
      else if ch = 79 then
        (lm_call (add_item [] None new_id (lm\<lparr>current_position := current_line ed\<rparr>)) ed
           (\<lambda>e. e\<lparr>mode := INSERT, cursor_x := 0\<rparr>), fs)
      else if ch = 106 \<or> ch = KEY_DOWN then
        ((Inr True, ed\<lparr>current_line :=
                          min (int (length (items lm)) - 1) (current_line ed + 1)\<rparr>), fs)
      else if ch = 107 \<or> ch = KEY_UP then
        ((Inr True, ed\<lparr>current_line := max 0 (current_line ed - 1)\<rparr>), fs)
      else if ch = 100 \<and> nxt = 100 then
        (if length (items lm) > 1 then
           (lm_call (delete_item (current_line ed) lm) ed
              (\<lambda>e. e\<lparr>current_line :=
                        min (current_line e) (int (length (items (list_manager e))) - 1)\<rparr>), fs)
         else ((Inr True, ed), fs))
      else if ch = 62 then
        (lm_call (indent_item (current_line ed) lm) ed id, fs)
      else if ch = 60 then
        (lm_call (outdent_item (current_line ed) lm) ed id, fs)
      else if ch = 115 then
        (case save_to_file (filename ed) lm fs of
           (Inl e, fs') \<Rightarrow> ((Inl e, ed), fs')
         | (Inr _, fs') \<Rightarrow> ((Inr True, ed), fs'))
      else if ch = 113 then ((Inr False, ed), fs)
      else ((Inr True, ed), fs))"

section \<open>Notions used to state the properties\<close>

text \<open>
  The counters after one more item at level \<open>x\<close>, and the number string read off the
  counters: what one iteration of \<open>renumber_items\<close> computes when it does not raise.
\<close>

definition bump :: "nat list \<Rightarrow> int \<Rightarrow> nat list" where
  "bump cs x = map (\<lambda>k. if x < int k then 0 else if int k = x then cs ! k + 1 else cs ! k) [0..<length cs]"

definition number_of :: "nat list \<Rightarrow> int \<Rightarrow> string" where
  "number_of cs x = join ''.'' (map str_nat (take (nat x + 1) cs))"

text \<open>The numbers of the items of a level sequence, from given counters.\<close>

fun numbers_from :: "nat list \<Rightarrow> int list \<Rightarrow> string list" where
  "numbers_from cs [] = []"
| "numbers_from cs (x # xs) = number_of (bump cs x) x # numbers_from (bump cs x) xs"

text \<open>The invariant of the data model: every level lies in \<open>[0, 10]\<close>.\<close>

definition levels_ok :: "list_item list \<Rightarrow> bool" where
  "levels_ok its = list_all (\<lambda>it. 0 \<le> level it \<and> level it \<le> 10) its"

text \<open>
  \<open>since l ls\<close>: going back from the end of \<open>ls\<close> up to the last level strictly less
  than \<open>l\<close>, the number of entries equal to \<open>l\<close>. \<open>count_since ls i\<close> is that count for
  item \<open>i\<close> at its own level, item \<open>i\<close> included.
\<close>

definition since :: "int \<Rightarrow> int list \<Rightarrow> nat" where
  "since l ls = length (filter (\<lambda>y. y = l) (takeWhile (\<lambda>y. l \<le> y) (rev ls)))"

definition count_since :: "int list \<Rightarrow> nat \<Rightarrow> nat" where
  "count_since ls i = since (ls ! i) (take (Suc i) ls)"

text \<open>The components of a string between occurrences of a separator character.\<close>

fun split_on :: "char \<Rightarrow> string \<Rightarrow> string list" where
  "split_on d [] = [[]]"
| "split_on d (c # cs) =
     (if c = d then [] # split_on d cs
      else (case split_on d cs of
              [] \<Rightarrow> [[c]]
            | w # ws \<Rightarrow> (c # w) # ws))"

text \<open>An outline with the levels 0, 1, 1, 0, 1.\<close>

definition outline5 :: list_manager where
  "outline5 = \<lparr>items = map (\<lambda>l. ListItem [] l []) [0, 1, 1, 0, 1], current_position = 5\<rparr>"

text \<open>
  Concrete states: a manager holding the single item \<open>x\<close> (reached from the empty
  manager by one \<open>add_item\<close>), a file whose only line is indented by 44 spaces, and an
  editor in INSERT mode on the single item \<open>ab\<close> with the cursor at offset 1.
\<close>

definition one_item :: list_manager where
  "one_item = snd (add_item ''x'' None ''id0'' ListManager)"

definition deep_file :: string where
  "deep_file = replicate 44 CHR '' '' @ ''1 x'' @ [LF]"

definition editing_ab :: editor where
  "editing_ab =
     \<lparr>list_manager = snd (add_item ''ab'' None ''id0'' ListManager), mode = INSERT,
      current_line = 0, top_line = 0, filename = ''list.txt'', cursor_x = 1,
      enter_count = 0\<rparr>"

text \<open>
  The keys other than Enter on which \<open>handle_insert_mode\<close> acts in a given state: the
  conditions of the branches of its chain, Enter left out.
\<close>

definition acts_on :: "int \<Rightarrow> editor \<Rightarrow> bool" where
  "acts_on ch ed =
     (ch = 27 \<or> ch = 9 \<or> ch = KEY_BTAB \<or> ch = KEY_BACKSPACE \<or> ch = 127 \<or> ch = 8 \<or>
      ch = KEY_DC \<or> ch = KEY_LEFT \<or> ch = KEY_RIGHT \<or>
      (ch = KEY_UP \<and> current_line ed > 0) \<or>
      (ch = KEY_DOWN \<and> current_line ed < int (length (items (list_manager ed))) - 1) \<or>
      (32 \<le> ch \<and> ch \<le> 126))"

text \<open>The focus is on an item of the list.\<close>

definition focus_ok :: "editor \<Rightarrow> bool" where
  "focus_ok ed =
     (0 \<le> current_line ed \<and> current_line ed < int (length (items (list_manager ed))))"

text \<open>The editor after the first Enter on \<open>ab\<close>: \<open>enter_count\<close> is 1.\<close>

definition after_enter :: editor where
  "after_enter = snd (handle_insert_mode 10 ''id1'' editing_ab)"

text \<open>The items with the field \<open>number\<close> blanked: all that \<open>renumber_items\<close> leaves alone.\<close>

abbreviation unnumbered :: "list_item list \<Rightarrow> list_item list" where
  "unnumbered its \<equiv> map (\<lambda>it. it\<lparr>number := None\<rparr>) its"

text \<open>The items as \<open>renumber_items\<close> leaves them when every level lies in \<open>[0, 10]\<close>.\<close>

definition renumbered :: "list_item list \<Rightarrow> list_item list" where
  "renumbered its =
     map2 (\<lambda>it n. it\<lparr>number := Some n\<rparr>) its (numbers_from (replicate 11 0) (map level its))"

text \<open>
  An editor in NORMAL mode on the items \<open>foo\<close> and \<open>bar\<close> with the focus on the second,
  and the same with the single item \<open>foo\<close>.
\<close>

definition foo_bar :: list_manager where
  "foo_bar = snd (add_item ''bar'' None ''id1'' (snd (add_item ''foo'' None ''id0'' ListManager)))"

definition normal_two :: editor where
  "normal_two =
     \<lparr>list_manager = foo_bar, mode = NORMAL, current_line = 1, top_line = 0,
      filename = ''list.txt'', cursor_x = 0, enter_count = 0\<rparr>"

definition normal_one :: editor where
  "normal_one =
     \<lparr>list_manager = snd (add_item ''foo'' None ''id0'' ListManager), mode = NORMAL,
      current_line = 0, top_line = 0, filename = ''list.txt'', cursor_x = 0,
      enter_count = 0\<rparr>"

text \<open>The editor in INSERT mode on \<open>foo\<close> and \<open>bar\<close>, at offset 0 of \<open>bar\<close>.\<close>

definition insert_two :: editor where
  "insert_two = normal_two\<lparr>mode := INSERT\<rparr>"

text \<open>
  A content is normalised when splitting it at white space and joining the words with
  single spaces gives it back: no leading or trailing white space, and single spaces
  as the only white space inside. A number is tidy when it is present, not empty and
  free of white space, as every number written by \<open>renumber_items\<close> is.
\<close>

definition normalised :: "string \<Rightarrow> bool" where
  "normalised c \<longleftrightarrow> join '' '' (split_ws c) = c"

definition tidy_number :: "list_item \<Rightarrow> bool" where
  "tidy_number it =
     (case number it of
        None \<Rightarrow> False
      | Some n \<Rightarrow> n \<noteq> [] \<and> \<not> list_ex is_space n)"

text \<open>The line that \<open>save_to_file\<close> writes for an item.\<close>

definition line_of :: "list_item \<Rightarrow> string" where
  "line_of it =
     (case number it of
        None \<Rightarrow> []
      | Some n \<Rightarrow> replicate (4 * nat (level it)) CHR '' '' @ n @ '' '' @ content it @ [LF])"

text \<open>The items that \<open>load_from_file\<close> creates for given items, before numbering.\<close>

definition loaded :: "(nat \<Rightarrow> string) \<Rightarrow> nat \<Rightarrow> list_item list \<Rightarrow> list_item list" where
  "loaded ids k its =
     map (\<lambda>(j, it). ListItem (content it) (level it) (ids j)) (zip [k..<k + length its] its)"

text \<open>
  Two documents: one whose only content has a double space inside, and one with the
  normalised contents \<open>Buy milk\<close> at level 0 and \<open>and eggs\<close> at level 1.
\<close>

definition spaced :: list_manager where
  "spaced = snd (add_item ''a  b'' None ''id0'' ListManager)"

definition shopping :: list_manager where
  "shopping =
     snd (add_item ''and eggs'' (Some 1) ''id1'' (snd (add_item ''Buy milk'' None ''id0'' ListManager)))"

text \<open>The invariant of the insertion cursor: \<open>0 \<le> current_position \<le> len(items)\<close>.\<close>

definition position_ok :: "list_manager \<Rightarrow> bool" where
  "position_ok lm =
     (0 \<le> current_position lm \<and> current_position lm \<le> int (length (items lm)))"

section \<open>Numbering\<close>

lemma py_index_in: "0 \<le> i \<Longrightarrow> i < int n \<Longrightarrow> py_index n i = Some (nat i)"
  by (simp add: py_index_def)

lemma reset_counters_upto:
  "0 \<le> a \<Longrightarrow> b < int (length cs) \<Longrightarrow>
   reset_counters [a..b] cs =
     Inr (map (\<lambda>k. if a \<le> int k \<and> int k \<le> b then 0 else cs ! k) [0..<length cs])"
proof (induction "nat (b + 1 - a)" arbitrary: a cs)
  case 0
  then have "[a..b] = []" by simp
  moreover have "map (\<lambda>k. if a \<le> int k \<and> int k \<le> b then 0 else cs ! k) [0..<length cs] = cs"
    using 0 by (intro nth_equalityI) auto
  ultimately show ?case by simp
next
  case (Suc n)
  then have ab: "a \<le> b" by linarith
  then have up: "[a..b] = a # [a + 1..b]" by (simp add: upto_rec1)
  have idx: "py_index (length cs) a = Some (nat a)"
    using Suc.prems ab by (simp add: py_index_in)
  have n: "n = nat (b + 1 - (a + 1))" using Suc.hyps(2) by linarith
  have "reset_counters [a + 1..b] (cs[nat a := 0]) =
        Inr (map (\<lambda>k. if a + 1 \<le> int k \<and> int k \<le> b then 0 else cs[nat a := 0] ! k) [0..<length (cs[nat a := 0])])"
    using Suc.hyps(1)[OF n, of "cs[nat a := 0]"] Suc.prems by simp
  moreover have "map (\<lambda>k. if a + 1 \<le> int k \<and> int k \<le> b then 0 else cs[nat a := 0] ! k) [0..<length (cs[nat a := 0])]
      = map (\<lambda>k. if a \<le> int k \<and> int k \<le> b then 0 else cs ! k) [0..<length cs]"
  proof (intro nth_equalityI)
    fix k assume "k < length (map (\<lambda>k. if a + 1 \<le> int k \<and> int k \<le> b then 0 else cs[nat a := 0] ! k) [0..<length (cs[nat a := 0])])"
    then have k: "k < length cs" by simp
    have a0: "int (nat a) = a" using Suc.prems(1) by simp
    show "map (\<lambda>k. if a + 1 \<le> int k \<and> int k \<le> b then 0 else cs[nat a := 0] ! k) [0..<length (cs[nat a := 0])] ! k
        = map (\<lambda>k. if a \<le> int k \<and> int k \<le> b then 0 else cs ! k) [0..<length cs] ! k"
    proof (cases "k = nat a")
      case True
      then show ?thesis using k ab a0 by simp
    next
      case False
      then have "int k \<noteq> a" using a0 by auto
      then show ?thesis using k False by (auto simp: nth_list_update)
    qed
  qed simp
  ultimately show ?case using up idx by (simp add: py_set_def)
qed

lemma upto_as_map: "0 \<le> x \<Longrightarrow> [0..x] = map int [0..<nat x + 1]"
proof (induction "nat x" arbitrary: x)
  case 0
  then show ?case by (simp add: upto_rec1)
next
  case (Suc n)
  then have "[0..x] = [0..x - 1] @ [x]" by (simp add: upto_rec2)
  moreover have "[0..x - 1] = map int [0..<nat (x - 1) + 1]"
    using Suc by (intro Suc.hyps(1)) auto
  moreover have "nat x = Suc (nat (x - 1))" using Suc by linarith
  ultimately show ?case using Suc.prems by simp
qed

lemma map_nth_upt_take: "n \<le> length l \<Longrightarrow> map (\<lambda>i. f (l ! i)) [0..<n] = map f (take n l)"
  by (rule nth_equalityI) simp_all

lemma renumber_step_ok:
  assumes "length cs = 11" "0 \<le> x" "x \<le> 10"
  shows "renumber_step cs x = Inr (bump cs x, number_of (bump cs x) x)"
proof -
  let ?c1 = "map (\<lambda>k. if x + 1 \<le> int k \<and> int k \<le> 10 then 0 else cs ! k) [0..<length cs]"
  have r: "reset_counters [x + 1..10] cs = Inr ?c1"
    using assms by (intro reset_counters_upto) auto
  have idx: "py_index (length ?c1) x = Some (nat x)"
    using assms by (simp add: py_index_in)
  have c2: "?c1[nat x := ?c1 ! nat x + 1] = bump cs x"
    using assms by (intro nth_equalityI) (auto simp: bump_def nth_list_update)
  have len: "length (bump cs x) = 11" using assms by (simp add: bump_def)
  have parts: "map (\<lambda>i. str_nat (bump cs x ! nat i)) [0..x] = map str_nat (take (nat x + 1) (bump cs x))"
    using assms len by (simp only: upto_as_map map_map o_def nat_int) (rule map_nth_upt_take, simp)
  show ?thesis
    unfolding renumber_step_def using r idx c2 parts
    by (simp add: py_get_def py_set_def number_of_def)
qed

lemma length_bump [simp]: "length (bump cs x) = length cs"
  by (simp add: bump_def)

lemma renumber_loop_ok:
  "length cs = 11 \<Longrightarrow> levels_ok its \<Longrightarrow>
   renumber_loop cs its =
     (map2 (\<lambda>it n. it\<lparr>number := Some n\<rparr>) its (numbers_from cs (map level its)), None)"
proof (induction its arbitrary: cs)
  case Nil
  then show ?case by simp
next
  case (Cons it its)
  then have lv: "0 \<le> level it" "level it \<le> 10" and rest: "levels_ok its"
    by (simp_all add: levels_ok_def)
  have st: "renumber_step cs (level it) =
              Inr (bump cs (level it), number_of (bump cs (level it)) (level it))"
    using Cons.prems(1) lv by (rule renumber_step_ok)
  have "length (bump cs (level it)) = 11" using Cons.prems(1) by simp
  from Cons.IH[OF this rest] st show ?case by simp
qed

lemma length_numbers_from [simp]: "length (numbers_from cs ls) = length ls"
  by (induction ls arbitrary: cs) simp_all

lemma numbers_from_nth:
  "i < length ls \<Longrightarrow>
   numbers_from cs ls ! i = number_of (foldl bump cs (take (Suc i) ls)) (ls ! i)"
proof (induction ls arbitrary: cs i)
  case Nil
  then show ?case by simp
next
  case (Cons x xs)
  then show ?case by (cases i) simp_all
qed

lemma renumber_loop_frame:
  "map (\<lambda>it. it\<lparr>number := None\<rparr>) (fst (renumber_loop cs its)) = map (\<lambda>it. it\<lparr>number := None\<rparr>) its"
proof (induction its arbitrary: cs)
  case Nil
  then show ?case by simp
next
  case (Cons it its)
  show ?case
  proof (cases "renumber_step cs (level it)")
    case (Inl e)
    then show ?thesis by simp
  next
    case (Inr p)
    obtain c' num where p: "p = (c', num)" by (cases p)
    obtain its' r where l: "renumber_loop c' its = (its', r)" by (cases "renumber_loop c' its")
    from Cons.IH[of c'] l have "map (\<lambda>it. it\<lparr>number := None\<rparr>) its' = map (\<lambda>it. it\<lparr>number := None\<rparr>) its"
      by simp
    then show ?thesis using Inr p l by simp
  qed
qed

lemma renumber_loop_length [simp]: "length (fst (renumber_loop cs its)) = length its"
proof -
  have "length (map (\<lambda>it. it\<lparr>number := None\<rparr>) (fst (renumber_loop cs its))) = length (map (\<lambda>it. it\<lparr>number := None\<rparr>) its)"
    by (simp only: renumber_loop_frame)
  then show ?thesis by simp
qed

lemma since_snoc:
  "since l (ls @ [x]) = (if x < l then 0 else if x = l then since l ls + 1 else since l ls)"
proof (cases "x < l")
  case True
  then show ?thesis by (simp add: since_def)
next
  case False
  then show ?thesis by (cases "x = l") (simp_all add: since_def)
qed

lemma foldl_bump_length [simp]: "length (foldl bump cs ls) = length cs"
  by (induction ls arbitrary: cs) simp_all

lemma counters_since:
  "k < 11 \<Longrightarrow> foldl bump (replicate 11 0) ls ! k = since (int k) ls"
proof (induction ls rule: rev_induct)
  case Nil
  then show ?case by (simp add: since_def)
next
  case (snoc x xs)
  have "bump (foldl bump (replicate 11 0) xs) x ! k =
        (if x < int k then 0 else if int k = x then foldl bump (replicate 11 0) xs ! k + 1
         else foldl bump (replicate 11 0) xs ! k)"
    using snoc.prems by (simp add: bump_def)
  then show ?case using snoc by (auto simp: since_snoc)
qed

lemma of_char_digit: "d < 10 \<Longrightarrow> (of_char (digit d) :: nat) = 48 + d"
  by (simp add: digit_def)

lemma str_nat_chars:
  "c \<in> set (str_nat n) \<Longrightarrow> 48 \<le> (of_char c :: nat) \<and> (of_char c :: nat) \<le> 57"
proof (induction n rule: str_nat.induct)
  case (1 n)
  show ?case
  proof (cases "n < 10")
    case True
    with "1.prems" have "c = digit n" by (simp add: str_nat.simps[of n])
    then show ?thesis using True by (simp add: of_char_digit)
  next
    case False
    with "1.prems" have "c \<in> set (str_nat (n div 10)) \<or> c = digit (n mod 10)"
      by (auto simp add: str_nat.simps[of n])
    then show ?thesis
    proof
      assume "c \<in> set (str_nat (n div 10))"
      then show ?thesis using "1.IH"[OF False] by simp
    next
      assume "c = digit (n mod 10)"
      then show ?thesis by (simp add: of_char_digit)
    qed
  qed
qed

lemma str_nat_no_dot: "CHR ''.'' \<notin> set (str_nat n)"
proof
  assume "CHR ''.'' \<in> set (str_nat n)"
  from str_nat_chars[OF this] show False by simp
qed

lemma split_on_none: "d \<notin> set w \<Longrightarrow> split_on d w = [w]"
  by (induction w) auto

lemma split_on_append: "d \<notin> set w \<Longrightarrow> split_on d (w @ d # rest) = w # split_on d rest"
proof (induction w)
  case Nil
  then show ?case by simp
next
  case (Cons c w)
  then show ?case by (cases "split_on d rest") auto
qed

lemma split_on_join:
  "ws \<noteq> [] \<Longrightarrow> \<forall>w \<in> set ws. d \<notin> set w \<Longrightarrow> split_on d (join [d] ws) = ws"
proof (induction "[d]" ws rule: join.induct)
  case 1
  then show ?case by simp
next
  case (2 w)
  then show ?case by (simp add: split_on_none)
next
  case (3 w v ws)
  then show ?case by (simp add: split_on_append)
qed

lemma split_number_of:
  "length cs = 11 \<Longrightarrow> 0 \<le> x \<Longrightarrow> x \<le> 10 \<Longrightarrow>
   split_on CHR ''.'' (number_of cs x) = map str_nat (take (nat x + 1) cs)"
  unfolding number_of_def
  by (rule split_on_join) (auto simp: str_nat_no_dot)

lemma renumber_items_ok:
  "levels_ok (items lm) \<Longrightarrow>
   renumber_items lm =
     (Inr (), lm\<lparr>items := map2 (\<lambda>it n. it\<lparr>number := Some n\<rparr>) (items lm)
                                (numbers_from (replicate 11 0) (map level (items lm)))\<rparr>)"
  by (simp add: renumber_items_def renumber_loop_ok)

lemma levels_ok_nth: "levels_ok its \<Longrightarrow> i < length its \<Longrightarrow> 0 \<le> level (its ! i) \<and> level (its ! i) \<le> 10"
  by (simp add: levels_ok_def list_all_length)


lemma levels_ok_map: "levels_ok its \<longleftrightarrow> list_all (\<lambda>l. 0 \<le> l \<and> l \<le> 10) (map level its)"
  by (simp add: levels_ok_def list_all_iff)

lemma map_number_map2:
  "length ns = length its \<Longrightarrow>
   map number (map2 (\<lambda>it n. it\<lparr>number := Some n\<rparr>) its ns) = map Some ns"
  by (rule nth_equalityI) simp_all

lemma renumber_items_numbers:
  "levels_ok (items lm) \<Longrightarrow>
   map number (items (snd (renumber_items lm))) =
     map Some (numbers_from (replicate 11 0) (map level (items lm)))"
proof -
  assume ok: "levels_ok (items lm)"
  let ?ns = "numbers_from (replicate 11 0) (map level (items lm))"
  have len: "length ?ns = length (items lm)" by simp
  have "items (snd (renumber_items lm)) = map2 (\<lambda>it n. it\<lparr>number := Some n\<rparr>) (items lm) ?ns"
    by (simp add: renumber_items_ok[OF ok])
  then show ?thesis by (simp only: map_number_map2[OF len])
qed

lemma numbers_example:
  "numbers_from (replicate 11 0) [0, 1, 1, 0, 1] = [''1'', ''1.1'', ''1.2'', ''2'', ''2.1'']"
  by code_simp

text \<open>
  The count \<open>count_since\<close> is the number of positions \<open>j \<le> i\<close> at the level of item
  \<open>i\<close> with no level strictly below it from \<open>j\<close> to \<open>i\<close>.
\<close>

lemma since_card:
  "since l xs = card {j. j < length xs \<and> xs ! j = l \<and> (\<forall>k. j \<le> k \<and> k < length xs \<longrightarrow> l \<le> xs ! k)}"
proof (induction xs rule: rev_induct)
  case Nil
  then show ?case by (simp add: since_def)
next
  case (snoc x xs)
  let ?S = "\<lambda>ys. {j. j < length ys \<and> ys ! j = l \<and> (\<forall>k. j \<le> k \<and> k < length ys \<longrightarrow> l \<le> ys ! k)}"
  let ?n = "length xs"
  have fin: "finite (?S xs)" by simp
  consider "x < l" | "x = l" | "l < x" by linarith
  then show ?case
  proof cases
    case 1
    have "?S (xs @ [x]) = {}"
    proof -
      { fix j assume "j \<in> ?S (xs @ [x])"
        then have "j \<le> ?n \<and> (\<forall>k. j \<le> k \<and> k < Suc ?n \<longrightarrow> l \<le> (xs @ [x]) ! k)" by auto
        then have "l \<le> (xs @ [x]) ! ?n" by auto
        then have False using 1 by simp }
      then show ?thesis by blast
    qed
    then show ?thesis using 1 by (simp add: since_snoc)
  next
    case 2
    have "?S (xs @ [x]) = insert ?n (?S xs)"
    proof (rule set_eqI)
      fix j
      show "j \<in> ?S (xs @ [x]) \<longleftrightarrow> j \<in> insert ?n (?S xs)"
      proof (cases "j < ?n")
        case True
        have "(\<forall>k. j \<le> k \<and> k < Suc ?n \<longrightarrow> l \<le> (xs @ [x]) ! k) \<longleftrightarrow>
              (\<forall>k. j \<le> k \<and> k < ?n \<longrightarrow> l \<le> xs ! k)"
          using 2 by (auto simp: nth_append less_Suc_eq)
        then show ?thesis using True by (simp add: nth_append)
      next
        case False
        then show ?thesis using 2 by (auto simp: nth_append less_Suc_eq)
      qed
    qed
    moreover have "?n \<notin> ?S xs" by simp
    ultimately have "card (?S (xs @ [x])) = Suc (card (?S xs))"
      using fin by simp
    then show ?thesis using 2 snoc by (simp add: since_snoc)
  next
    case 3
    have "?S (xs @ [x]) = ?S xs"
    proof (rule set_eqI)
      fix j
      show "j \<in> ?S (xs @ [x]) \<longleftrightarrow> j \<in> ?S xs"
      proof (cases "j < ?n")
        case True
        have "(\<forall>k. j \<le> k \<and> k < Suc ?n \<longrightarrow> l \<le> (xs @ [x]) ! k) \<longleftrightarrow>
              (\<forall>k. j \<le> k \<and> k < ?n \<longrightarrow> l \<le> xs ! k)"
          using 3 by (auto simp: nth_append less_Suc_eq)
        then show ?thesis using True by (simp add: nth_append)
      next
        case False
        then show ?thesis using 3 by (auto simp: nth_append less_Suc_eq)
      qed
    qed
    then show ?thesis using 3 snoc by (simp add: since_snoc)
  qed
qed

lemma count_since_card:
  assumes "i < length ls"
  shows "count_since ls i =
         card {j. j \<le> i \<and> ls ! j = ls ! i \<and> (\<forall>k. j \<le> k \<and> k \<le> i \<longrightarrow> ls ! i \<le> ls ! k)}"
proof -
  have len: "length (take (Suc i) ls) = Suc i" using assms by simp
  have "{j. j < length (take (Suc i) ls) \<and> take (Suc i) ls ! j = ls ! i \<and>
            (\<forall>k. j \<le> k \<and> k < length (take (Suc i) ls) \<longrightarrow> ls ! i \<le> take (Suc i) ls ! k)} =
        {j. j \<le> i \<and> ls ! j = ls ! i \<and> (\<forall>k. j \<le> k \<and> k \<le> i \<longrightarrow> ls ! i \<le> ls ! k)}"
    unfolding len by (auto simp: less_Suc_eq_le)
  then show ?thesis by (simp only: count_since_def since_card)
qed

text \<open>
  Claim C1. Whenever every level lies in \<open>[0, 10]\<close>, \<open>renumber_items\<close> returns, and
  the number of every item \<open>i\<close> at level \<open>l\<close> has exactly \<open>l + 1\<close> components between
  dots, the one at position \<open>l\<close> being the decimal count of the items at level \<open>l\<close>
  since the last preceding item at a level strictly less than \<open>l\<close>, item \<open>i\<close> included.
  The levels 0, 1, 1, 0, 1 give the numbers 1, 1.1, 1.2, 2, 2.1.
\<close>

theorem renumber_items_numbering:
  "(levels_ok (items lm) \<longrightarrow>
      fst (renumber_items lm) = Inr () \<and>
      (\<forall>i < length (items lm).
         \<exists>num. number (items (snd (renumber_items lm)) ! i) = Some num \<and>
           length (split_on CHR ''.'' num) = nat (level (items lm ! i)) + 1 \<and>
           split_on CHR ''.'' num ! nat (level (items lm ! i)) =
             str_nat (count_since (map level (items lm)) i) \<and>
           count_since (map level (items lm)) i =
             card {j. j \<le> i \<and> map level (items lm) ! j = map level (items lm) ! i \<and>
                      (\<forall>k. j \<le> k \<and> k \<le> i \<longrightarrow>
                         map level (items lm) ! i \<le> map level (items lm) ! k)})) \<and>
   (map level (items lm) = [0, 1, 1, 0, 1] \<longrightarrow>
      map number (items (snd (renumber_items lm))) =
        [Some ''1'', Some ''1.1'', Some ''1.2'', Some ''2'', Some ''2.1''])"
proof (intro conjI impI allI)
  assume ok: "levels_ok (items lm)"
  then show "fst (renumber_items lm) = Inr ()" by (simp add: renumber_items_ok)
next
  fix i
  assume ok: "levels_ok (items lm)" and i: "i < length (items lm)"
  let ?ls = "map level (items lm)"
  let ?x = "level (items lm ! i)"
  let ?cs = "foldl bump (replicate 11 0) (take (Suc i) ?ls)"
  have x: "0 \<le> ?x" "?x \<le> 10" using levels_ok_nth[OF ok i] by simp_all
  have r: "renumber_items lm =
     (Inr (), lm\<lparr>items := map2 (\<lambda>it n. it\<lparr>number := Some n\<rparr>) (items lm)
                                (numbers_from (replicate 11 0) ?ls)\<rparr>)"
    using ok by (rule renumber_items_ok)
  have num: "number (items (snd (renumber_items lm)) ! i) = Some (number_of ?cs ?x)"
    using i by (simp add: r numbers_from_nth)
  have sp: "split_on CHR ''.'' (number_of ?cs ?x) = map str_nat (take (nat ?x + 1) ?cs)"
    using x by (intro split_number_of) simp_all
  have k: "nat ?x < 11" using x by linarith
  have "?cs ! nat ?x = since (int (nat ?x)) (take (Suc i) ?ls)"
    using k by (rule counters_since)
  then have cnt: "?cs ! nat ?x = count_since ?ls i"
    using x i by (simp add: count_since_def)
  have "length (split_on CHR ''.'' (number_of ?cs ?x)) = nat ?x + 1"
    using k by (simp add: sp)
  moreover have "split_on CHR ''.'' (number_of ?cs ?x) ! nat ?x = str_nat (count_since ?ls i)"
    using k cnt by (simp add: sp)
  moreover have "count_since ?ls i =
             card {j. j \<le> i \<and> ?ls ! j = ?ls ! i \<and>
                      (\<forall>k. j \<le> k \<and> k \<le> i \<longrightarrow> ?ls ! i \<le> ?ls ! k)}"
    using i by (intro count_since_card) simp
  ultimately show "\<exists>num. number (items (snd (renumber_items lm)) ! i) = Some num \<and>
           length (split_on CHR ''.'' num) = nat (level (items lm ! i)) + 1 \<and>
           split_on CHR ''.'' num ! nat (level (items lm ! i)) =
             str_nat (count_since (map level (items lm)) i) \<and>
           count_since (map level (items lm)) i =
             card {j. j \<le> i \<and> map level (items lm) ! j = map level (items lm) ! i \<and>
                      (\<forall>k. j \<le> k \<and> k \<le> i \<longrightarrow>
                         map level (items lm) ! i \<le> map level (items lm) ! k)}"
    using num by simp
next
  assume ls: "map level (items lm) = [0, 1, 1, 0, 1]"
  then have ok: "levels_ok (items lm)" by (simp add: levels_ok_map)
  have len: "length (items lm) = 5" using arg_cong[OF ls, of length] by simp
  have "map number (items (snd (renumber_items lm))) =
        map Some (numbers_from (replicate 11 0) (map level (items lm)))"
    using ok by (rule renumber_items_numbers)
  then show "map number (items (snd (renumber_items lm))) =
        [Some ''1'', Some ''1.1'', Some ''1.2'', Some ''2'', Some ''2.1'']"
    by (simp only: ls numbers_example list.map)
qed

text \<open>The property at the outline with levels 0, 1, 1, 0, 1.\<close>

theorem renumber_items_numbering_witness:
  "levels_ok (items outline5) \<and> map level (items outline5) = [0, 1, 1, 0, 1] \<and>
   4 < length (items outline5) \<and>
   fst (renumber_items outline5) = Inr () \<and>
   map number (items (snd (renumber_items outline5))) =
     [Some ''1'', Some ''1.1'', Some ''1.2'', Some ''2'', Some ''2.1''] \<and>
   (\<exists>num. number (items (snd (renumber_items outline5)) ! 4) = Some num \<and>
      length (split_on CHR ''.'' num) = nat (level (items outline5 ! 4)) + 1 \<and>
      split_on CHR ''.'' num ! nat (level (items outline5 ! 4)) =
        str_nat (count_since (map level (items outline5)) 4))"
proof -
  have ls: "map level (items outline5) = [0, 1, 1, 0, 1]"
    by (simp add: outline5_def ListItem_def)
  then have ok: "levels_ok (items outline5)" by (simp add: levels_ok_map)
  have len: "4 < length (items outline5)" by (simp add: outline5_def)
  show ?thesis using renumber_items_numbering[of outline5] ls ok len by blast
qed

lemma map2_number_level:
  "length ns = length its \<Longrightarrow> map level (map2 (\<lambda>it n. it\<lparr>number := Some n\<rparr>) its ns) = map level its"
  by (rule nth_equalityI) simp_all

lemma map2_number_twice:
  "length ns = length its \<Longrightarrow>
   map2 (\<lambda>it n. it\<lparr>number := Some n\<rparr>) (map2 (\<lambda>it n. it\<lparr>number := Some n\<rparr>) its ns) ns =
   map2 (\<lambda>it n. it\<lparr>number := Some n\<rparr>) its ns"
  by (rule nth_equalityI) simp_all

lemma map2_number_erase:
  "length ns = length its \<Longrightarrow>
   map (\<lambda>it. it\<lparr>number := None\<rparr>) (map2 (\<lambda>it n. it\<lparr>number := Some n\<rparr>) its ns) =
   map (\<lambda>it. it\<lparr>number := None\<rparr>) its"
  by (rule nth_equalityI) simp_all

lemma renumber_items_idem:
  assumes ok: "levels_ok (items lm)"
  shows "renumber_items (snd (renumber_items lm)) = renumber_items lm"
proof -
  let ?ns = "numbers_from (replicate 11 0) (map level (items lm))"
  let ?its' = "map2 (\<lambda>it n. it\<lparr>number := Some n\<rparr>) (items lm) ?ns"
  have len: "length ?ns = length (items lm)" by simp
  have r: "renumber_items lm = (Inr (), lm\<lparr>items := ?its'\<rparr>)"
    using ok by (rule renumber_items_ok)
  have lv: "map level ?its' = map level (items lm)"
    using len by (rule map2_number_level)
  have ok': "levels_ok (items (lm\<lparr>items := ?its'\<rparr>))"
    using ok lv by (simp add: levels_ok_map)
  have "renumber_items (lm\<lparr>items := ?its'\<rparr>) =
        (Inr (), lm\<lparr>items := map2 (\<lambda>it n. it\<lparr>number := Some n\<rparr>) ?its' ?ns\<rparr>)"
    using renumber_items_ok[OF ok'] lv by simp
  then show ?thesis using r map2_number_twice[OF len] by simp
qed

text \<open>
  Claim C10. Whenever every level lies in \<open>[0, 10]\<close>, \<open>renumber_items\<close> returns and
  writes the field \<open>number\<close> of the items only: the items keep their order, length,
  content, level, collapsed flag, identifier and metadata, \<open>current_position\<close> is
  unchanged, and a second call changes nothing more.
\<close>

theorem renumber_items_frame:
  assumes ok: "levels_ok (items lm)"
  shows "fst (renumber_items lm) = Inr () \<and>
         (\<exists>ns. length ns = length (items lm) \<and>
               snd (renumber_items lm) =
                 lm\<lparr>items := map2 (\<lambda>it n. it\<lparr>number := Some n\<rparr>) (items lm) ns\<rparr>) \<and>
         map (\<lambda>it. it\<lparr>number := None\<rparr>) (items (snd (renumber_items lm))) =
           map (\<lambda>it. it\<lparr>number := None\<rparr>) (items lm) \<and>
         length (items (snd (renumber_items lm))) = length (items lm) \<and>
         current_position (snd (renumber_items lm)) = current_position lm \<and>
         renumber_items (snd (renumber_items lm)) = renumber_items lm"
proof -
  let ?ns = "numbers_from (replicate 11 0) (map level (items lm))"
  have len: "length ?ns = length (items lm)" by simp
  have r: "renumber_items lm =
     (Inr (), lm\<lparr>items := map2 (\<lambda>it n. it\<lparr>number := Some n\<rparr>) (items lm) ?ns\<rparr>)"
    using ok by (rule renumber_items_ok)
  have a: "fst (renumber_items lm) = Inr ()" by (simp add: r)
  have b: "\<exists>ns. length ns = length (items lm) \<and>
               snd (renumber_items lm) =
                 lm\<lparr>items := map2 (\<lambda>it n. it\<lparr>number := Some n\<rparr>) (items lm) ns\<rparr>"
    using len r by (intro exI[of _ ?ns]) simp
  have c: "map (\<lambda>it. it\<lparr>number := None\<rparr>) (items (snd (renumber_items lm))) =
           map (\<lambda>it. it\<lparr>number := None\<rparr>) (items lm)"
    using map2_number_erase[OF len] by (simp add: r)
  have d: "length (items (snd (renumber_items lm))) = length (items lm)" by (simp add: r)
  have e: "current_position (snd (renumber_items lm)) = current_position lm" by (simp add: r)
  from a b c d e renumber_items_idem[OF ok] show ?thesis by blast
qed

text \<open>The frame property at the outline with levels 0, 1, 1, 0, 1.\<close>

theorem renumber_items_frame_witness:
  "levels_ok (items outline5) \<and>
   fst (renumber_items outline5) = Inr () \<and>
   map (\<lambda>it. it\<lparr>number := None\<rparr>) (items (snd (renumber_items outline5))) =
     map (\<lambda>it. it\<lparr>number := None\<rparr>) (items outline5) \<and>
   current_position (snd (renumber_items outline5)) = 5 \<and>
   renumber_items (snd (renumber_items outline5)) = renumber_items outline5"
proof -
  have ok: "levels_ok (items outline5)"
    by (simp add: levels_ok_map outline5_def ListItem_def)
  have "current_position outline5 = 5" by (simp add: outline5_def)
  then show ?thesis using renumber_items_frame[OF ok] ok by simp
qed

section \<open>Behaviour at concrete inputs\<close>

text \<open>
  Claim C3 against the code. Loading a file whose line is indented by 44 spaces computes
  level 11 and appends the item; \<open>renumber_items\<close> then raises IndexError, which
  \<open>load_from_file\<close> does not catch, and the item of level 11 stays in the list. An
  explicit level \<open>-1\<close> passed to \<open>add_item\<close> is stored as it is.
\<close>

theorem level_bound_not_kept:
  "load_from_file ''list.txt'' (\<lambda>k. ''id'') (Map.empty(''list.txt'' \<mapsto> deep_file)) ListManager =
     (Inl IndexError, \<lparr>items = [ListItem ''x'' 11 ''id''], current_position = 1\<rparr>) \<and>
   fst (add_item ''y'' (Some (- 1)) ''id1'' one_item) =
     Inr ((ListItem ''y'' (- 1) ''id1'')\<lparr>number := Some []\<rparr>) \<and>
   map level (items (snd (add_item ''y'' (Some (- 1)) ''id1'' one_item))) = [0, - 1]"
  by code_simp

text \<open>
  Claim C4 against the code. The first Enter on \<open>ab\<close> at offset 1 gives the single item
  \<open>a\nb\<close> with the cursor at 2 and \<open>enter_count\<close> 1. The second Enter appends an empty
  item at the same level, moves the focus to it and resets \<open>enter_count\<close>, but leaves
  \<open>cursor_x\<close> at 2, beyond the end of the new, empty content.
\<close>

theorem double_enter_keeps_cursor:
  "handle_insert_mode 10 ''id1'' editing_ab =
     (Inr True,
      editing_ab\<lparr>list_manager :=
                   \<lparr>items = [(ListItem (''a'' @ [LF] @ ''b'') 0 ''id0'')\<lparr>number := Some ''1''\<rparr>],
                    current_position = 1\<rparr>,
                 cursor_x := 2, enter_count := 1\<rparr>) \<and>
   handle_insert_mode 10 ''id2'' (snd (handle_insert_mode 10 ''id1'' editing_ab)) =
     (Inr True,
      editing_ab\<lparr>list_manager :=
                   \<lparr>items = [(ListItem (''a'' @ [LF] @ ''b'') 0 ''id0'')\<lparr>number := Some ''1''\<rparr>,
                             (ListItem [] 0 ''id2'')\<lparr>number := Some ''2''\<rparr>],
                    current_position = 2\<rparr>,
                 current_line := 1, cursor_x := 2, enter_count := 0\<rparr>)"
  by code_simp

text \<open>
  Claim C6 against the code. With one item in the list and \<open>current_position\<close> 2,
  \<open>add_item\<close> without a level reads \<open>items[1]\<close> and raises IndexError; nothing is
  appended and \<open>current_position\<close> does not advance.
\<close>

theorem add_item_raises_beyond_end:
  "one_item = \<lparr>items = [(ListItem ''x'' 0 ''id0'')\<lparr>number := Some ''1''\<rparr>], current_position = 1\<rparr> \<and>
   add_item [] None ''id1'' (one_item\<lparr>current_position := 2\<rparr>) =
     (Inl IndexError, one_item\<lparr>current_position := 2\<rparr>)"
  by code_simp

text \<open>
  Claim C7 against the code. Deleting the only item of a manager leaves
  \<open>current_position\<close> at \<open>-1\<close>; two calls of \<open>add_item\<close> after that put the second
  item before the first.
\<close>

theorem delete_last_item_position:
  "current_position one_item = 1 \<and>
   delete_item 0 one_item = (Inr (), \<lparr>items = [], current_position = - 1\<rparr>) \<and>
   map content
     (items (snd (add_item ''b'' None ''id2''
                    (snd (add_item ''a'' None ''id1'' (snd (delete_item 0 one_item))))))) =
     [''b'', ''a'']"
  by code_simp

section \<open>The INSERT mode handler\<close>

lemma lm_call_enter_count:
  "(\<And>e. enter_count (k e) = enter_count e) \<Longrightarrow>
   enter_count (snd (lm_call r ed k)) = enter_count ed"
  by (cases r; cases "fst r") (simp_all add: lm_call_def)

lemma set_content_enter_count [simp]: "enter_count (set_content k s ed) = enter_count ed"
  by (simp add: set_content_def Let_def)

lemma focus_ok_index:
  "focus_ok ed \<Longrightarrow>
   items (list_manager ed) \<noteq> [] \<and>
   py_index (length (items (list_manager ed))) (current_line ed) = Some (nat (current_line ed))"
  by (auto simp: focus_ok_def py_index_def)

text \<open>
  The reset of \<open>enter_count\<close> on the branches of the handler: with the focus on an
  item, every key other than Enter that meets the condition of a branch (ESC, Tab,
  Shift+Tab, Backspace, Delete, Left, Right, Up when the focus is not on the first
  item, Down when it is not on the last, a printable character) leaves \<open>enter_count\<close>
  at 0, also when the key changes nothing else and when a ListManager call raises.
\<close>

lemma insert_key_resets_enter_count:
  assumes f: "focus_ok ed" and n: "ch \<noteq> 10" and a: "acts_on ch ed"
  shows "enter_count (snd (handle_insert_mode ch new_id ed)) = 0"
proof -
  note ix = focus_ok_index[OF f]
  have up: "current_line ed > 0 \<Longrightarrow>
            \<exists>it. py_get (items (list_manager ed)) (current_line ed - 1) = Inr it"
    using f by (simp add: py_get_def py_index_def focus_ok_def)
  have down: "current_line ed < int (length (items (list_manager ed))) - 1 \<Longrightarrow>
            \<exists>it. py_get (items (list_manager ed)) (current_line ed + 1) = Inr it"
    using f by (simp add: py_get_def py_index_def focus_ok_def)
  have prev: "current_line ed > 0 \<Longrightarrow>
            \<exists>p. py_index (length (items (list_manager ed))) (current_line ed - 1) = Some p"
    using f by (simp add: py_index_def focus_ok_def)
  consider "ch = 27" | "ch = 9" | "ch = KEY_BTAB" | "ch = KEY_BACKSPACE \<or> ch = 127 \<or> ch = 8"
    | "ch = KEY_DC" | "ch = KEY_LEFT" | "ch = KEY_RIGHT"
    | "ch = KEY_UP" "current_line ed > 0"
    | "ch = KEY_DOWN" "current_line ed < int (length (items (list_manager ed))) - 1"
    | "32 \<le> ch" "ch \<le> 126" "ch \<noteq> 127"
    using a by (auto simp: acts_on_def)
  then show ?thesis
  proof cases
    case 1
    then show ?thesis using ix by (simp add: handle_insert_mode_def Let_def)
  next
    case 2
    then show ?thesis using ix
      by (simp add: handle_insert_mode_def Let_def lm_call_enter_count)
  next
    case 3
    then show ?thesis using ix
      by (simp add: handle_insert_mode_def Let_def lm_call_enter_count KEY_BTAB_def)
  next
    case 4
    then show ?thesis using ix prev
      by (auto simp: handle_insert_mode_def Let_def lm_call_enter_count KEY_BTAB_def
            KEY_BACKSPACE_def)
  next
    case 5
    then show ?thesis using ix
      by (simp add: handle_insert_mode_def Let_def KEY_BTAB_def KEY_BACKSPACE_def KEY_DC_def)
  next
    case 6
    then show ?thesis using ix
      by (simp add: handle_insert_mode_def Let_def KEY_BTAB_def KEY_BACKSPACE_def KEY_DC_def
            KEY_LEFT_def)
  next
    case 7
    then show ?thesis using ix
      by (simp add: handle_insert_mode_def Let_def KEY_BTAB_def KEY_BACKSPACE_def KEY_DC_def
            KEY_LEFT_def KEY_RIGHT_def)
  next
    case 8
    then show ?thesis using ix up
      by (auto simp: handle_insert_mode_def Let_def KEY_BTAB_def KEY_BACKSPACE_def KEY_DC_def
            KEY_LEFT_def KEY_RIGHT_def KEY_UP_def)
  next
    case 9
    then show ?thesis using ix down
      by (auto simp: handle_insert_mode_def Let_def KEY_BTAB_def KEY_BACKSPACE_def KEY_DC_def
            KEY_LEFT_def KEY_RIGHT_def KEY_UP_def KEY_DOWN_def)
  next
    case 10
    then show ?thesis using ix
      by (auto simp: handle_insert_mode_def Let_def KEY_BTAB_def KEY_BACKSPACE_def KEY_DC_def
            KEY_LEFT_def KEY_RIGHT_def KEY_UP_def KEY_DOWN_def)
  qed
qed

text \<open>Tab after one Enter on \<open>ab\<close>: \<open>enter_count\<close> goes from 1 to 0.\<close>

lemma insert_key_resets_enter_count_at_tab:
  "focus_ok after_enter \<and> (9 :: int) \<noteq> 10 \<and> acts_on 9 after_enter \<and>
   enter_count after_enter = 1 \<and>
   enter_count (snd (handle_insert_mode 9 ''id2'' after_enter)) = 0"
proof -
  have h: "focus_ok after_enter" "acts_on 9 after_enter" "enter_count after_enter = 1"
    by (code_simp)+
  show ?thesis
    using insert_key_resets_enter_count[of after_enter 9 "''id2''"] h by simp
qed

text \<open>
  Claim C8 against the code. After one Enter on \<open>ab\<close>, Up on the first item, Down on
  the last item and the key code 0 are neither Enter nor ESC, and each leaves the whole
  state as it was, \<open>enter_count = 1\<close> included: they meet the condition of no branch,
  and the reset sits inside the branches. A following Enter then creates a new item,
  though the two Enters are not consecutive. Left resets \<open>enter_count\<close> even at offset 0,
  where it changes nothing else, and an Enter after Left inserts a second line break.
\<close>

theorem idle_key_keeps_enter_count:
  "mode after_enter = INSERT \<and> current_line after_enter = 0 \<and>
   enter_count after_enter = 1 \<and> KEY_UP \<noteq> 10 \<and> KEY_UP \<noteq> 27 \<and>
   handle_insert_mode KEY_UP ''id2'' after_enter = (Inr True, after_enter) \<and>
   handle_insert_mode KEY_DOWN ''id2'' after_enter = (Inr True, after_enter) \<and>
   handle_insert_mode 0 ''id2'' after_enter = (Inr True, after_enter) \<and>
   enter_count (snd (handle_insert_mode KEY_UP ''id2'' after_enter)) \<noteq> 0 \<and>
   map content (items (list_manager (snd (handle_insert_mode 10 ''id3''
      (snd (handle_insert_mode KEY_UP ''id2'' after_enter)))))) = [''a'' @ [LF] @ ''b'', []] \<and>
   handle_insert_mode KEY_LEFT ''id2'' (after_enter\<lparr>cursor_x := 0\<rparr>) =
     (Inr True, after_enter\<lparr>cursor_x := 0, enter_count := 0\<rparr>) \<and>
   map content (items (list_manager (snd (handle_insert_mode 10 ''id3''
      (snd (handle_insert_mode KEY_LEFT ''id2'' after_enter)))))) = [''a'' @ [LF, LF] @ ''b'']"
  by code_simp

section \<open>Deleting the current line\<close>

lemma renumber_items_items:
  "items (snd (renumber_items lm)) = fst (renumber_loop (replicate 11 0) (items lm))"
  by (simp add: renumber_items_def split: prod.splits option.splits)

lemma renumber_items_position [simp]:
  "current_position (snd (renumber_items lm)) = current_position lm"
  by (simp add: renumber_items_def split: prod.splits option.splits)

lemma renumber_items_unnumbered:
  "unnumbered (items (snd (renumber_items lm))) = unnumbered (items lm)"
  by (simp only: renumber_items_items renumber_loop_frame)

lemma delete_item_items:
  assumes "0 \<le> i" "i < int (length (items lm))"
  shows "items (snd (delete_item i lm)) =
         items (snd (renumber_items (lm\<lparr>items := take (nat i) (items lm) @ drop (Suc (nat i)) (items lm)\<rparr>)))"
  using assms by (simp add: delete_item_def Let_def split: prod.splits sum.splits)

lemma delete_item_unnumbered:
  assumes "0 \<le> i" "i < int (length (items lm))"
  shows "unnumbered (items (snd (delete_item i lm))) =
         unnumbered (take (nat i) (items lm) @ drop (Suc (nat i)) (items lm))"
proof -
  have "unnumbered (items (snd (delete_item i lm))) =
        unnumbered (items (lm\<lparr>items := take (nat i) (items lm) @ drop (Suc (nat i)) (items lm)\<rparr>))"
    by (simp only: delete_item_items[OF assms] renumber_items_unnumbered)
  then show ?thesis by simp
qed

lemma delete_item_length:
  assumes "0 \<le> i" "i < int (length (items lm))"
  shows "length (items (snd (delete_item i lm))) = length (items lm) - 1"
proof -
  have "length (unnumbered (items (snd (delete_item i lm)))) =
        length (unnumbered (take (nat i) (items lm) @ drop (Suc (nat i)) (items lm)))"
    by (simp only: delete_item_unnumbered[OF assms])
  then show ?thesis using assms by simp
qed

lemma delete_item_outside:
  "\<not> (0 \<le> i \<and> i < int (length (items lm))) \<Longrightarrow> delete_item i lm = (Inr (), lm)"
  by (auto simp: delete_item_def)

lemma lm_call_manager:
  "(\<And>e. list_manager (k e) = list_manager e) \<Longrightarrow>
   list_manager (snd (lm_call r ed k)) = snd r"
  by (cases r; cases "fst r") (simp_all add: lm_call_def)

lemma dd_manager:
  "items (list_manager ed) \<noteq> [] \<Longrightarrow>
   list_manager (snd (fst (handle_normal_mode 100 100 new_id ed fs))) =
     (if 1 < length (items (list_manager ed))
      then snd (delete_item (current_line ed) (list_manager ed)) else list_manager ed)"
  by (simp add: handle_normal_mode_def Let_def KEY_DOWN_def KEY_UP_def lm_call_manager)

text \<open>
  Claim C9. The \<open>dd\<close> gesture of NORMAL mode never empties a non-empty list. With more
  than one item and the focus on an item, the item at \<open>current_line\<close> is removed and
  the list is shorter by exactly one (the other items keep everything but their
  numbers). With exactly one item, nothing changes at all.
\<close>

theorem dd_keeps_last_item:
  "(items (list_manager ed) \<noteq> [] \<longrightarrow>
      items (list_manager (snd (fst (handle_normal_mode 100 100 new_id ed fs)))) \<noteq> []) \<and>
   (1 < length (items (list_manager ed)) \<and> focus_ok ed \<longrightarrow>
      length (items (list_manager (snd (fst (handle_normal_mode 100 100 new_id ed fs))))) =
        length (items (list_manager ed)) - 1 \<and>
      unnumbered (items (list_manager (snd (fst (handle_normal_mode 100 100 new_id ed fs))))) =
        unnumbered (take (nat (current_line ed)) (items (list_manager ed)) @
                    drop (Suc (nat (current_line ed))) (items (list_manager ed)))) \<and>
   (length (items (list_manager ed)) = 1 \<longrightarrow>
      handle_normal_mode 100 100 new_id ed fs = ((Inr True, ed), fs))"
proof (intro conjI impI)
  assume ne: "items (list_manager ed) \<noteq> []"
  show "items (list_manager (snd (fst (handle_normal_mode 100 100 new_id ed fs)))) \<noteq> []"
  proof (cases "1 < length (items (list_manager ed))")
    case False
    then show ?thesis using ne by (simp add: dd_manager)
  next
    case True
    show ?thesis
    proof (cases "0 \<le> current_line ed \<and> current_line ed < int (length (items (list_manager ed)))")
      case False
      then show ?thesis using ne True by (simp add: dd_manager delete_item_outside)
    next
      case inside: True
      then have "length (items (snd (delete_item (current_line ed) (list_manager ed)))) =
                 length (items (list_manager ed)) - 1"
        by (intro delete_item_length) simp_all
      then have "length (items (snd (delete_item (current_line ed) (list_manager ed)))) \<noteq> 0"
        using True by linarith
      then show ?thesis using ne True by (simp add: dd_manager)
    qed
  qed
next
  assume a: "1 < length (items (list_manager ed)) \<and> focus_ok ed"
  then have ne: "items (list_manager ed) \<noteq> []" by auto
  have i: "0 \<le> current_line ed" "current_line ed < int (length (items (list_manager ed)))"
    using a by (simp_all add: focus_ok_def)
  have m: "list_manager (snd (fst (handle_normal_mode 100 100 new_id ed fs))) =
           snd (delete_item (current_line ed) (list_manager ed))"
    using a ne by (simp add: dd_manager)
  show "length (items (list_manager (snd (fst (handle_normal_mode 100 100 new_id ed fs))))) =
        length (items (list_manager ed)) - 1"
    by (simp only: m delete_item_length[OF i])
  show "unnumbered (items (list_manager (snd (fst (handle_normal_mode 100 100 new_id ed fs))))) =
        unnumbered (take (nat (current_line ed)) (items (list_manager ed)) @
                    drop (Suc (nat (current_line ed))) (items (list_manager ed)))"
    by (simp only: m delete_item_unnumbered[OF i])
next
  assume "length (items (list_manager ed)) = 1"
  then show "handle_normal_mode 100 100 new_id ed fs = ((Inr True, ed), fs)"
    by (auto simp: handle_normal_mode_def Let_def KEY_DOWN_def KEY_UP_def)
qed

text \<open>The \<open>dd\<close> gesture on two items with the focus on the second, and on a single item.\<close>

theorem dd_keeps_last_item_witness:
  "1 < length (items (list_manager normal_two)) \<and> focus_ok normal_two \<and>
   length (items (list_manager normal_one)) = 1 \<and>
   map content (items (list_manager (snd (fst (handle_normal_mode 100 100 ''id2'' normal_two Map.empty))))) = [''foo''] \<and>
   length (items (list_manager (snd (fst (handle_normal_mode 100 100 ''id2'' normal_two Map.empty))))) =
     length (items (list_manager normal_two)) - 1 \<and>
   handle_normal_mode 100 100 ''id2'' normal_one Map.empty = ((Inr True, normal_one), Map.empty)"
proof -
  have h: "1 < length (items (list_manager normal_two))" "focus_ok normal_two"
          "length (items (list_manager normal_one)) = 1"
    by (code_simp)+
  have c: "map content (items (list_manager (snd (fst (handle_normal_mode 100 100 ''id2'' normal_two Map.empty))))) = [''foo'']"
    by code_simp
  show ?thesis
    using dd_keeps_last_item[of normal_two "''id2''" Map.empty]
          dd_keeps_last_item[of normal_one "''id2''" Map.empty] h c
    by blast
qed
section \<open>Backspace\<close>

lemma renumbered_length [simp]: "length (renumbered its) = length its"
  by (simp add: renumbered_def)

lemma renumbered_unnumbered [simp]: "unnumbered (renumbered its) = unnumbered its"
  unfolding renumbered_def by (rule map2_number_erase) simp

lemma renumber_items_renumbered:
  "levels_ok (items lm) \<Longrightarrow> renumber_items lm = (Inr (), lm\<lparr>items := renumbered (items lm)\<rparr>)"
  by (simp only: renumber_items_ok renumbered_def)

lemma levels_ok_update:
  "levels_ok its \<Longrightarrow> 0 \<le> level v \<Longrightarrow> level v \<le> 10 \<Longrightarrow> levels_ok (its[k := v])"
  by (auto simp: levels_ok_def list_all_iff dest!: set_update_subset_insert[THEN subsetD])

lemma levels_ok_delete:
  "levels_ok its \<Longrightarrow> levels_ok (take k its @ drop (Suc k) its)"
  by (auto simp: levels_ok_def list_all_iff dest: in_set_takeD in_set_dropD)

lemma outdent_item_ok:
  assumes "0 \<le> i" "i < int (length (items lm))" "levels_ok (items lm)"
  shows "outdent_item i lm =
         (Inr (), lm\<lparr>items := renumbered ((items lm)[nat i :=
                     (items lm ! nat i)\<lparr>level := max (level (items lm ! nat i) - 1) 0\<rparr>])\<rparr>)"
proof -
  let ?it = "items lm ! nat i"
  have "nat i < length (items lm)" using assms by linarith
  then have "level ?it \<le> 10" using levels_ok_nth[OF assms(3)] by simp
  then have "levels_ok ((items lm)[nat i := ?it\<lparr>level := max (level ?it - 1) 0\<rparr>])"
    using assms(3) by (intro levels_ok_update) simp_all
  then show ?thesis
    using assms by (simp add: outdent_item_def Let_def renumber_items_renumbered)
qed

lemma delete_item_ok:
  assumes "0 \<le> i" "i < int (length (items lm))" "levels_ok (items lm)"
  shows "delete_item i lm =
         (Inr (), lm\<lparr>items := renumbered (take (nat i) (items lm) @ drop (Suc (nat i)) (items lm)),
                      current_position := min (current_position lm) (int (length (items lm)) - 2)\<rparr>)"
proof -
  have "levels_ok (take (nat i) (items lm) @ drop (Suc (nat i)) (items lm))"
    using assms(3) by (rule levels_ok_delete)
  moreover have "int (length (take (nat i) (items lm) @ drop (Suc (nat i)) (items lm))) - 1
                 = int (length (items lm)) - 2"
    using assms by simp
  ultimately show ?thesis
    using assms by (simp add: delete_item_def Let_def renumber_items_renumbered)
qed

lemma merge_delete_list:
  assumes "0 < k" "k < length xs"
  shows "take k (xs[k - 1 := v]) @ drop (Suc k) (xs[k - 1 := v]) =
         take (k - 1) xs @ [v] @ drop (Suc k) xs"
proof -
  obtain p where p: "k = Suc p" using assms(1) by (cases k) auto
  have "take (Suc p) (xs[p := v]) = take p xs @ [v]"
    using assms(2) p by (simp add: take_Suc_conv_app_nth)
  moreover have "drop (Suc (Suc p)) (xs[p := v]) = drop (Suc (Suc p)) xs"
    by simp
  ultimately show ?thesis using p by simp
qed

text \<open>
  Claim C5. Backspace in INSERT mode, with the focus on an item and every level in
  \<open>[0, 10]\<close>, returns True and, in this order of priority: at offset 0 of an item of
  level above 0, lowers the level of that item by one and deletes nothing; else at
  offset 0 of an item that is not the first, appends its content to the previous item,
  removes it, moves the focus to the previous item and puts the cursor at the former
  length of that item's content; else at an offset above 0, removes the character before
  the cursor and moves the cursor back by one.
\<close>

theorem backspace_cases:
  assumes f: "focus_ok ed" and ok: "levels_ok (items (list_manager ed))"
    and ch: "ch = KEY_BACKSPACE \<or> ch = 127 \<or> ch = 8"
  shows "fst (handle_insert_mode ch new_id ed) = Inr True \<and>
    (level (items (list_manager ed) ! nat (current_line ed)) > 0 \<and> cursor_x ed = 0 \<longrightarrow>
       unnumbered (items (list_manager (snd (handle_insert_mode ch new_id ed)))) =
         unnumbered ((items (list_manager ed))[nat (current_line ed) :=
           (items (list_manager ed) ! nat (current_line ed))
             \<lparr>level := level (items (list_manager ed) ! nat (current_line ed)) - 1\<rparr>]) \<and>
       current_line (snd (handle_insert_mode ch new_id ed)) = current_line ed \<and>
       cursor_x (snd (handle_insert_mode ch new_id ed)) = 0) \<and>
    (\<not> level (items (list_manager ed) ! nat (current_line ed)) > 0 \<and> cursor_x ed = 0 \<and>
     current_line ed > 0 \<longrightarrow>
       unnumbered (items (list_manager (snd (handle_insert_mode ch new_id ed)))) =
         unnumbered (take (nat (current_line ed) - 1) (items (list_manager ed)) @
           [(items (list_manager ed) ! (nat (current_line ed) - 1))
              \<lparr>content := content (items (list_manager ed) ! (nat (current_line ed) - 1)) @
                          content (items (list_manager ed) ! nat (current_line ed))\<rparr>] @
           drop (Suc (nat (current_line ed))) (items (list_manager ed))) \<and>
       current_line (snd (handle_insert_mode ch new_id ed)) = current_line ed - 1 \<and>
       cursor_x (snd (handle_insert_mode ch new_id ed)) =
         int (length (content (items (list_manager ed) ! (nat (current_line ed) - 1))))) \<and>
    (cursor_x ed > 0 \<longrightarrow>
       snd (handle_insert_mode ch new_id ed) =
         ed\<lparr>list_manager := (list_manager ed)\<lparr>items := (items (list_manager ed))
                 [nat (current_line ed) := (items (list_manager ed) ! nat (current_line ed))
                    \<lparr>content :=
                       take (nat (cursor_x ed) - 1)
                         (content (items (list_manager ed) ! nat (current_line ed))) @
                       drop (nat (cursor_x ed))
                         (content (items (list_manager ed) ! nat (current_line ed)))\<rparr>]\<rparr>,
            cursor_x := cursor_x ed - 1, enter_count := 0\<rparr>)"
proof -
  let ?lm = "list_manager ed"
  let ?its = "items ?lm"
  let ?k = "nat (current_line ed)"
  let ?it = "?its ! ?k"
  note ix = focus_ok_index[OF f]
  have i: "0 \<le> current_line ed" "current_line ed < int (length ?its)"
    using f by (simp_all add: focus_ok_def)
  have k: "?k < length ?its" using i by linarith
  have keys: "ch \<noteq> 27" "ch \<noteq> 10" "ch \<noteq> 9" "ch \<noteq> KEY_BTAB"
             "ch = KEY_BACKSPACE \<or> ch = 127 \<or> ch = 8"
    using ch by (auto simp: KEY_BACKSPACE_def KEY_BTAB_def)
  have lv: "0 \<le> level ?it" "level ?it \<le> 10" using levels_ok_nth[OF ok k] by simp_all
  have branch: "handle_insert_mode ch new_id ed =
     (if level ?it > 0 \<and> cursor_x ed = 0 then
        lm_call (outdent_item (current_line ed) ?lm) (ed\<lparr>enter_count := 0\<rparr>) id
      else if cursor_x ed = 0 \<and> current_line ed > 0 then
        (case py_index (length ?its) (current_line ed - 1) of
           None \<Rightarrow> (Inl IndexError, ed\<lparr>enter_count := 0\<rparr>)
         | Some p \<Rightarrow>
            lm_call (delete_item (current_line ed)
                       (?lm\<lparr>items := ?its[p := (?its ! p)\<lparr>content := content (?its ! p) @ content ?it\<rparr>]\<rparr>))
              (ed\<lparr>enter_count := 0\<rparr>)
              (\<lambda>e. e\<lparr>current_line := current_line e - 1,
                      cursor_x := int (length (content (?its ! p)))\<rparr>))
      else if cursor_x ed > 0 then
        (Inr True, (set_content ?k (py_upto (content ?it) (cursor_x ed - 1) @
                                     py_from (content ?it) (cursor_x ed)) (ed\<lparr>enter_count := 0\<rparr>))
                     \<lparr>cursor_x := cursor_x ed - 1\<rparr>)
      else (Inr True, ed\<lparr>enter_count := 0\<rparr>))"
    using ix keys by (auto simp: handle_insert_mode_def Let_def split: option.split)
  show ?thesis
  proof (cases "level ?it > 0 \<and> cursor_x ed = 0")
    case True
    have m: "max (level ?it - 1) 0 = level ?it - 1" using True by simp
    have "handle_insert_mode ch new_id ed =
          (Inr True, ed\<lparr>enter_count := 0, list_manager := ?lm\<lparr>items := renumbered (?its[?k :=
                     ?it\<lparr>level := level ?it - 1\<rparr>])\<rparr>\<rparr>)"
      using True by (simp add: branch outdent_item_ok[OF i ok] lm_call_def m)
    then show ?thesis using True by simp
  next
    case n1: False
    show ?thesis
    proof (cases "cursor_x ed = 0 \<and> current_line ed > 0")
      case True
      let ?p = "?k - 1"
      let ?merged = "(?its ! ?p)\<lparr>content := content (?its ! ?p) @ content ?it\<rparr>"
      let ?lm1 = "?lm\<lparr>items := ?its[?p := ?merged]\<rparr>"
      have kp: "0 < ?k" using True by linarith
      have p: "py_index (length ?its) (current_line ed - 1) = Some ?p"
        using True i by (simp add: py_index_def nat_diff_distrib)
      have "?p < length ?its" using k by linarith
      then have "level (?its ! ?p) \<le> 10 \<and> 0 \<le> level (?its ! ?p)"
        using levels_ok_nth[OF ok] by simp
      then have ok1: "levels_ok (items ?lm1)"
        using ok by (simp add: levels_ok_update)
      have i1: "0 \<le> current_line ed" "current_line ed < int (length (items ?lm1))"
        using i by simp_all
      have d: "delete_item (current_line ed) ?lm1 =
         (Inr (), ?lm1\<lparr>items := renumbered (take ?k (items ?lm1) @ drop (Suc ?k) (items ?lm1)),
                      current_position := min (current_position ?lm1) (int (length (items ?lm1)) - 2)\<rparr>)"
        by (rule delete_item_ok[OF i1 ok1])
      have l: "take ?k (items ?lm1) @ drop (Suc ?k) (items ?lm1) =
               take ?p ?its @ [?merged] @ drop (Suc ?k) ?its"
        using merge_delete_list[OF kp k] by simp
      have b: "handle_insert_mode ch new_id ed =
        lm_call (delete_item (current_line ed) ?lm1) (ed\<lparr>enter_count := 0\<rparr>)
          (\<lambda>e. e\<lparr>current_line := current_line e - 1,
                  cursor_x := int (length (content (?its ! ?p)))\<rparr>)"
        using True n1 by (simp add: branch p)
      have "lm_call (delete_item (current_line ed) ?lm1) (ed\<lparr>enter_count := 0\<rparr>)
          (\<lambda>e. e\<lparr>current_line := current_line e - 1,
                  cursor_x := int (length (content (?its ! ?p)))\<rparr>) =
        (Inr True, ed\<lparr>enter_count := 0,
            list_manager := ?lm1\<lparr>items := renumbered (take ?p ?its @ [?merged] @ drop (Suc ?k) ?its),
               current_position := min (current_position ?lm1) (int (length (items ?lm1)) - 2)\<rparr>,
            current_line := current_line ed - 1,
            cursor_x := int (length (content (?its ! ?p)))\<rparr>)"
        by (simp only: d l) (simp add: lm_call_def)
      with b have "handle_insert_mode ch new_id ed =
        (Inr True, ed\<lparr>enter_count := 0,
            list_manager := ?lm1\<lparr>items := renumbered (take ?p ?its @ [?merged] @ drop (Suc ?k) ?its),
               current_position := min (current_position ?lm1) (int (length (items ?lm1)) - 2)\<rparr>,
            current_line := current_line ed - 1,
            cursor_x := int (length (content (?its ! ?p)))\<rparr>)"
        by (rule trans)
      then show ?thesis using True n1 by simp
    next
      case n2: False
      show ?thesis
      proof (cases "cursor_x ed > 0")
        case True
        have s: "py_upto (content ?it) (cursor_x ed - 1) = take (nat (cursor_x ed) - 1) (content ?it)"
                "py_from (content ?it) (cursor_x ed) = drop (nat (cursor_x ed)) (content ?it)"
          using True by (simp_all add: py_upto_def py_from_def nat_diff_distrib)
        have "handle_insert_mode ch new_id ed =
              (Inr True, (set_content ?k (take (nat (cursor_x ed) - 1) (content ?it) @
                                     drop (nat (cursor_x ed)) (content ?it)) (ed\<lparr>enter_count := 0\<rparr>))
                     \<lparr>cursor_x := cursor_x ed - 1\<rparr>)"
          using True n1 n2 by (simp add: branch s)
        then show ?thesis using True by (simp add: set_content_def Let_def)
      next
        case False
        have "handle_insert_mode ch new_id ed = (Inr True, ed\<lparr>enter_count := 0\<rparr>)"
          using False n1 n2 by (simp only: branch if_False)
        then show ?thesis using False n1 n2 by auto
      qed
    qed
  qed
qed

text \<open>
  Backspace at offset 0 of \<open>bar\<close>, after \<open>foo\<close>, both at level 0: the single item
  \<open>foobar\<close>, with the focus on it and the cursor at offset 3.
\<close>

theorem backspace_cases_witness:
  "focus_ok insert_two \<and> levels_ok (items (list_manager insert_two)) \<and>
   map content (items (list_manager insert_two)) = [''foo'', ''bar''] \<and>
   map level (items (list_manager insert_two)) = [0, 0] \<and>
   current_line insert_two = 1 \<and> cursor_x insert_two = 0 \<and>
   fst (handle_insert_mode 127 ''id2'' insert_two) = Inr True \<and>
   map content (items (list_manager (snd (handle_insert_mode 127 ''id2'' insert_two)))) = [''foobar''] \<and>
   current_line (snd (handle_insert_mode 127 ''id2'' insert_two)) = 0 \<and>
   cursor_x (snd (handle_insert_mode 127 ''id2'' insert_two)) = 3"
proof -
  have h: "focus_ok insert_two" "levels_ok (items (list_manager insert_two))"
    by (code_simp)+
  have e: "map content (items (list_manager insert_two)) = [''foo'', ''bar'']"
          "map level (items (list_manager insert_two)) = [0, 0]"
          "current_line insert_two = 1" "cursor_x insert_two = 0"
          "items (list_manager insert_two) ! 0 = (ListItem ''foo'' 0 ''id0'')\<lparr>number := Some ''1''\<rparr>"
          "items (list_manager insert_two) ! 1 = (ListItem ''bar'' 0 ''id1'')\<lparr>number := Some ''2''\<rparr>"
    by (code_simp)+
  have c: "map content (items (list_manager (snd (handle_insert_mode 127 ''id2'' insert_two)))) = [''foobar'']"
    by code_simp
  have "fst (handle_insert_mode 127 ''id2'' insert_two) = Inr True \<and>
        current_line (snd (handle_insert_mode 127 ''id2'' insert_two)) = 0 \<and>
        cursor_x (snd (handle_insert_mode 127 ''id2'' insert_two)) = 3"
    using backspace_cases[OF h, of 127 "''id2''"] e by (simp add: ListItem_def)
  then show ?thesis using h e c by simp
qed

section \<open>Text files\<close>

lemma is_space_simps [simp]: "is_space CHR '' ''" "is_space LF" "is_space CR"
  by (simp_all add: is_space_def LF_def CR_def)

lemma universal_newlines_id: "CR \<notin> set s \<Longrightarrow> universal_newlines s = s"
  by (induction s rule: universal_newlines.induct) auto

lemma lines_acc_line:
  "LF \<notin> set b \<Longrightarrow> lines_acc cur (b @ LF # rest) = (cur @ b @ [LF]) # lines_acc [] rest"
  by (induction b arbitrary: cur) auto

lemma file_lines_concat:
  "\<forall>b \<in> set bs. LF \<notin> set b \<Longrightarrow>
   file_lines (concat (map (\<lambda>b. b @ [LF]) bs)) = map (\<lambda>b. b @ [LF]) bs"
proof (induction bs)
  case Nil
  then show ?case by (simp add: file_lines_def)
next
  case (Cons b bs)
  then have "lines_acc [] (b @ LF # concat (map (\<lambda>b. b @ [LF]) bs)) =
             ([] @ b @ [LF]) # lines_acc [] (concat (map (\<lambda>b. b @ [LF]) bs))"
    by (intro lines_acc_line) simp
  then show ?case using Cons by (simp add: file_lines_def)
qed

lemma split_words_word:
  "\<forall>c \<in> set u. \<not> is_space c \<Longrightarrow> split_words w (u @ rest) = split_words (w @ u) rest"
  by (induction u arbitrary: w) auto

lemma split_words_spaces:
  "\<forall>c \<in> set sp. is_space c \<Longrightarrow> split_words [] (sp @ rest) = split_words [] rest"
  by (induction sp) auto

lemma split_words_only_spaces:
  "\<forall>c \<in> set sp. is_space c \<Longrightarrow> split_words w sp = (if w = [] then [] else [w])"
  by (induction sp arbitrary: w) auto

lemma split_words_trailing:
  "\<forall>c \<in> set sp. is_space c \<Longrightarrow> split_words w (s @ sp) = split_words w s"
  by (induction s arbitrary: w) (auto simp: split_words_only_spaces split_words_spaces[where rest="[]", simplified])

lemma split_ws_lstrip: "split_ws (lstrip s) = split_ws s"
proof -
  have "split_words [] (takeWhile is_space s @ dropWhile is_space s) =
        split_words [] (dropWhile is_space s)"
    by (rule split_words_spaces) (auto dest: set_takeWhileD)
  then show ?thesis by (simp add: split_ws_def lstrip_def)
qed

lemma rstrip_decomp: "\<exists>sp. s = rstrip s @ sp \<and> (\<forall>c \<in> set sp. is_space c)"
proof -
  have "rev s = takeWhile is_space (rev s) @ dropWhile is_space (rev s)" by simp
  then have "s = rev (dropWhile is_space (rev s)) @ rev (takeWhile is_space (rev s))"
    by (metis rev_append rev_rev_ident)
  moreover have "\<forall>c \<in> set (rev (takeWhile is_space (rev s))). is_space c"
    by (auto dest: set_takeWhileD)
  ultimately show ?thesis unfolding rstrip_def by blast
qed

lemma split_ws_rstrip: "split_ws (rstrip s) = split_ws s"
proof -
  obtain sp where s: "s = rstrip s @ sp" and sp: "\<forall>c \<in> set sp. is_space c"
    using rstrip_decomp by blast
  have "split_words [] (rstrip s @ sp) = split_words [] (rstrip s)"
    using sp by (rule split_words_trailing)
  then show ?thesis using s by (simp add: split_ws_def)
qed

lemma split_ws_strip: "split_ws (strip s) = split_ws s"
  by (simp add: strip_def split_ws_lstrip split_ws_rstrip)

lemma split_words_clean:
  "\<forall>c \<in> set w0. \<not> is_space c \<Longrightarrow> w \<in> set (split_words w0 s) \<Longrightarrow> c \<in> set w \<Longrightarrow>
   \<not> is_space c"
proof (induction s arbitrary: w0)
  case Nil
  then show ?case by (auto split: if_splits)
next
  case (Cons a s)
  show ?case
  proof (cases "is_space a")
    case True
    then have "w = w0 \<or> w \<in> set (split_words [] s)"
      using Cons.prems(2) by (auto split: if_splits)
    then show ?thesis
    proof
      assume "w = w0"
      then show ?thesis using Cons.prems by simp
    next
      assume "w \<in> set (split_words [] s)"
      then show ?thesis using Cons.IH[of "[]"] Cons.prems(3) by simp
    qed
  next
    case False
    then have "w \<in> set (split_words (w0 @ [a]) s)" using Cons.prems(2) by simp
    moreover have "\<forall>c \<in> set (w0 @ [a]). \<not> is_space c" using False Cons.prems(1) by simp
    ultimately show ?thesis using Cons.IH[of "w0 @ [a]"] Cons.prems(3) by blast
  qed
qed

lemma join_space_chars:
  "c \<in> set (join '' '' ws) \<Longrightarrow> c = CHR '' '' \<or> (\<exists>w \<in> set ws. c \<in> set w)"
  by (induction "'' ''" ws rule: join.induct) auto

lemma normalised_chars:
  assumes "normalised s" "c \<in> set s" "is_space c"
  shows "c = CHR '' ''"
proof -
  have "c \<in> set (join '' '' (split_ws s))" using assms by (simp add: normalised_def)
  then have "c = CHR '' '' \<or> (\<exists>w \<in> set (split_ws s). c \<in> set w)"
    by (rule join_space_chars)
  moreover have "\<forall>w \<in> set (split_ws s). \<forall>c \<in> set w. \<not> is_space c"
    unfolding split_ws_def using split_words_clean[of "[]"] by auto
  ultimately show ?thesis using assms(3) by blast
qed

lemma LF_CR_codes [simp]: "LF \<noteq> CHR '' ''" "CR \<noteq> CHR '' ''" "LF \<noteq> CR" "CR \<noteq> LF"
  by (simp_all add: LF_def CR_def)

lemma file_lines_lines:
  assumes "\<forall>l \<in> set ls. l \<noteq> [] \<and> last l = LF \<and> LF \<notin> set (butlast l)"
  shows "file_lines (concat ls) = ls"
proof -
  have "\<forall>l \<in> set ls. butlast l @ [LF] = l"
    using assms append_butlast_last_id by metis
  then have "map (\<lambda>l. butlast l @ [LF]) ls = ls"
    by (simp add: map_idI)
  then have ls: "ls = map (\<lambda>b. b @ [LF]) (map butlast ls)"
    by (simp add: o_def)
  have "file_lines (concat (map (\<lambda>b. b @ [LF]) (map butlast ls))) =
        map (\<lambda>b. b @ [LF]) (map butlast ls)"
    using assms by (intro file_lines_concat) auto
  then show ?thesis using ls by simp
qed

lemma tidy_numberD:
  "tidy_number it \<Longrightarrow> \<exists>a n. number it = Some (a # n) \<and> \<not> is_space a \<and> (\<forall>c \<in> set n. \<not> is_space c)"
  by (cases "number it"; cases "the (number it)") (auto simp: tidy_number_def list_ex_iff)

lemma line_of_parse:
  assumes lv: "0 \<le> level it" and t: "tidy_number it" and n: "normalised (content it)"
  shows "strip (line_of it) \<noteq> []"
    and "(int (length (line_of it)) - int (length (lstrip (line_of it)))) div 4 = level it"
    and "join '' '' (tl (split_ws (strip (line_of it)))) = content it"
proof -
  obtain a m where num: "number it = Some (a # m)" and a: "\<not> is_space a"
    and m: "\<forall>c \<in> set m. \<not> is_space c"
    using tidy_numberD[OF t] by blast
  let ?sp = "replicate (4 * nat (level it)) CHR '' ''"
  let ?rest = "a # m @ CHR '' '' # content it @ [LF]"
  have l: "line_of it = ?sp @ ?rest" by (simp add: line_of_def num)
  have "split_words [] (?sp @ ?rest) = split_words [] ?rest"
    by (rule split_words_spaces) simp
  also have "\<dots> = split_words ([] @ (a # m)) (CHR '' '' # content it @ [LF])"
    using split_words_word[of "a # m" "[]" "CHR '' '' # content it @ [LF]"] a m by simp
  also have "\<dots> = (a # m) # split_words [] (content it @ [LF])" by simp
  also have "split_words [] (content it @ [LF]) = split_words [] (content it)"
    by (rule split_words_trailing) simp
  finally have sw: "split_ws (line_of it) = (a # m) # split_ws (content it)"
    by (simp add: split_ws_def l)
  then have ss: "split_ws (strip (line_of it)) = (a # m) # split_ws (content it)"
    by (simp add: split_ws_strip)
  show "strip (line_of it) \<noteq> []"
  proof
    assume "strip (line_of it) = []"
    then have "split_ws (strip (line_of it)) = []" by (simp add: split_ws_def)
    then show False using ss by simp
  qed
  show "join '' '' (tl (split_ws (strip (line_of it)))) = content it"
    using n by (simp add: ss normalised_def)
  have "dropWhile is_space (?sp @ ?rest) = dropWhile is_space ?rest"
    by (rule dropWhile_append2) simp
  then have "lstrip (line_of it) = ?rest" using a by (simp add: lstrip_def l)
  then have "int (length (line_of it)) - int (length (lstrip (line_of it))) = 4 * level it"
    using lv by (simp add: l)
  then show "(int (length (line_of it)) - int (length (lstrip (line_of it)))) div 4 = level it"
    by simp
qed

lemma line_of_shape:
  assumes t: "tidy_number it" and n: "normalised (content it)"
  shows "line_of it \<noteq> []" and "last (line_of it) = LF"
    and "LF \<notin> set (butlast (line_of it))" and "CR \<notin> set (line_of it)"
proof -
  obtain a m where num: "number it = Some (a # m)" and a: "\<not> is_space a"
    and m: "\<forall>c \<in> set m. \<not> is_space c"
    using tidy_numberD[OF t] by blast
  let ?body = "replicate (4 * nat (level it)) CHR '' '' @ (a # m) @ CHR '' '' # content it"
  have l: "line_of it = ?body @ [LF]" by (simp add: line_of_def num)
  have c: "\<And>c. c \<in> set (content it) \<Longrightarrow> is_space c \<Longrightarrow> c = CHR '' ''"
    using normalised_chars[OF n] by blast
  have b: "\<And>c. c \<in> set ?body \<Longrightarrow> is_space c \<Longrightarrow> c = CHR '' ''"
    using a m c by auto
  show "line_of it \<noteq> []" by (simp add: l)
  show "last (line_of it) = LF" by (simp add: l)
  have "butlast (line_of it) = ?body" unfolding l by (rule butlast_snoc)
  moreover have "LF \<notin> set ?body" using b[of LF] by auto
  ultimately show "LF \<notin> set (butlast (line_of it))" by simp
  have "CR \<notin> set ?body" using b[of CR] by auto
  then show "CR \<notin> set (line_of it)" unfolding l by simp
qed

lemma write_items_lines:
  "list_all tidy_number its \<Longrightarrow> write_items its out = (out @ concat (map line_of its), None)"
proof (induction its arbitrary: out)
  case Nil
  then show ?case by simp
next
  case (Cons it its)
  then obtain n where "number it = Some n" by (cases "number it") (auto simp: tidy_number_def)
  then show ?case using Cons by (simp add: line_of_def)
qed

section \<open>Saving and loading\<close>

lemma number_update_cong:
  "a\<lparr>number := None\<rparr> = b\<lparr>number := None\<rparr> \<Longrightarrow> a\<lparr>number := v\<rparr> = (b\<lparr>number := v\<rparr> :: list_item)"
proof -
  assume "a\<lparr>number := None\<rparr> = b\<lparr>number := None\<rparr>"
  then have "(a\<lparr>number := None\<rparr>)\<lparr>number := v\<rparr> = (b\<lparr>number := None\<rparr>)\<lparr>number := v\<rparr>"
    by (rule arg_cong)
  then show ?thesis by simp
qed

lemma unnumbered_level: "unnumbered xs = unnumbered ys \<Longrightarrow> map level xs = map level ys"
proof -
  assume "unnumbered xs = unnumbered ys"
  then have "map level (unnumbered xs) = map level (unnumbered ys)" by (rule arg_cong)
  then show ?thesis by (simp add: o_def)
qed

lemma renumbered_cong:
  assumes u: "unnumbered xs = unnumbered ys"
  shows "renumbered xs = renumbered ys"
proof (rule nth_equalityI)
  have len: "length xs = length ys" using arg_cong[OF u, of length] by simp
  then show "length (renumbered xs) = length (renumbered ys)" by simp
  fix i assume "i < length (renumbered xs)"
  then have i: "i < length xs" "i < length ys" using len by simp_all
  have "unnumbered xs ! i = unnumbered ys ! i" using u by simp
  then have e: "(xs ! i)\<lparr>number := None\<rparr> = (ys ! i)\<lparr>number := None\<rparr>" using i by simp
  show "renumbered xs ! i = renumbered ys ! i"
    using i number_update_cong[OF e] by (simp add: renumbered_def unnumbered_level[OF u])
qed

lemma renumbered_idem: "renumbered (renumbered xs) = renumbered xs"
  by (rule renumbered_cong) simp

lemma renumbered_append_left: "renumbered (renumbered xs @ ys) = renumbered (xs @ ys)"
  by (rule renumbered_cong) simp

lemma renumbered_level [simp]: "map level (renumbered xs) = map level xs"
  unfolding renumbered_def by (rule map2_number_level) simp

lemma renumbered_content [simp]: "map content (renumbered xs) = map content xs"
  unfolding renumbered_def by (rule nth_equalityI) simp_all

lemma renumbered_number:
  "map number (renumbered xs) = map Some (numbers_from (replicate 11 0) (map level xs))"
  unfolding renumbered_def by (rule map_number_map2) simp

lemma levels_ok_renumbered [simp]: "levels_ok (renumbered xs) = levels_ok xs"
  by (simp add: levels_ok_map)

lemma levels_ok_snoc:
  "levels_ok xs \<Longrightarrow> 0 \<le> level x \<Longrightarrow> level x \<le> 10 \<Longrightarrow> levels_ok (xs @ [x])"
  by (simp add: levels_ok_def)

lemma add_item_append:
  assumes ok: "levels_ok (items lm)" and l: "0 \<le> l" "l \<le> 10"
    and p: "current_position lm = int (length (items lm))"
  shows "\<exists>it. add_item c (Some l) new_id lm =
           (Inr it, lm\<lparr>items := renumbered (items lm @ [ListItem c l new_id]),
                       current_position := int (length (items lm)) + 1\<rparr>)"
proof -
  let ?lm1 = "lm\<lparr>items := items lm @ [ListItem c l new_id],
                 current_position := current_position lm + 1\<rparr>"
  have "levels_ok (items ?lm1)"
    using ok l by (simp add: levels_ok_snoc ListItem_def)
  then have "renumber_items ?lm1 = (Inr (), ?lm1\<lparr>items := renumbered (items ?lm1)\<rparr>)"
    by (rule renumber_items_renumbered)
  then show ?thesis using p by (simp add: add_item_def Let_def)
qed

lemma loaded_Cons:
  "loaded ids k (it # its) = ListItem (content it) (level it) (ids k) # loaded ids (Suc k) its"
  by (simp add: loaded_def upt_conv_Cons del: upt_Suc)

lemma loaded_Nil [simp]: "loaded ids k [] = []"
  by (simp add: loaded_def)

lemma load_lines_ok:
  assumes "levels_ok its" "list_all tidy_number its" "list_all (\<lambda>it. normalised (content it)) its"
    and "levels_ok (items lm)" "current_position lm = int (length (items lm))"
    and "renumbered (items lm) = items lm"
  shows "load_lines ids k (map line_of its) lm =
           (Inr (), lm\<lparr>items := renumbered (items lm @ loaded ids k its),
                       current_position := current_position lm + int (length its)\<rparr>)"
  using assms
proof (induction its arbitrary: lm k)
  case Nil
  then show ?case by simp
next
  case (Cons it its)
  have it: "0 \<le> level it" "level it \<le> 10" "tidy_number it" "normalised (content it)"
    using Cons.prems(1-3) by (simp_all add: levels_ok_def)
  have rest: "levels_ok its" "list_all tidy_number its"
             "list_all (\<lambda>it. normalised (content it)) its"
    using Cons.prems(1-3) by (simp_all add: levels_ok_def)
  let ?new = "ListItem (content it) (level it) (ids k)"
  let ?lm1 = "lm\<lparr>items := renumbered (items lm @ [?new]),
                 current_position := int (length (items lm)) + 1\<rparr>"
  obtain r where a: "add_item (content it) (Some (level it)) (ids k) lm = (Inr r, ?lm1)"
    using add_item_append[OF Cons.prems(4) it(1,2) Cons.prems(5)] by blast
  have ok1: "levels_ok (items ?lm1)"
    using Cons.prems(4) it(1,2) by (simp add: levels_ok_snoc ListItem_def)
  have p1: "current_position ?lm1 = int (length (items ?lm1))" by simp
  have f1: "renumbered (items ?lm1) = items ?lm1" by (simp add: renumbered_idem)
  have ih: "load_lines ids (Suc k) (map line_of its) ?lm1 =
           (Inr (), ?lm1\<lparr>items := renumbered (items ?lm1 @ loaded ids (Suc k) its),
                         current_position := current_position ?lm1 + int (length its)\<rparr>)"
    by (rule Cons.IH[OF rest ok1 p1 f1])
  have step: "load_lines ids k (map line_of (it # its)) lm =
              load_lines ids (Suc k) (map line_of its) ?lm1"
    using line_of_parse[OF it(1,3,4)] a by (simp add: Let_def)
  show ?case
    using Cons.prems(5)
    by (simp only: step ih) (simp add: renumbered_append_left loaded_Cons)
qed

lemma loaded_fields:
  "map (\<lambda>it. (level it, content it)) (loaded ids k its) = map (\<lambda>it. (level it, content it)) its"
  by (induction its arbitrary: k) (simp_all add: loaded_Cons ListItem_def)

lemma pairs_of_renumbered:
  "map (\<lambda>it. (level it, content it)) (renumbered xs) = map (\<lambda>it. (level it, content it)) xs"
  unfolding renumbered_def by (rule nth_equalityI) simp_all

lemma save_to_file_ok:
  "list_all tidy_number (items lm) \<Longrightarrow>
   save_to_file fname lm fs = (Inr (), fs(fname \<mapsto> concat (map line_of (items lm))))"
  by (simp add: save_to_file_def write_items_lines)

lemma read_back_lines:
  assumes "list_all tidy_number its" "list_all (\<lambda>it. normalised (content it)) its"
  shows "file_lines (universal_newlines (concat (map line_of its))) = map line_of its"
proof -
  have each: "\<And>it. it \<in> set its \<Longrightarrow> tidy_number it \<and> normalised (content it)"
    using assms by (simp add: list_all_iff)
  have "CR \<notin> set (concat (map line_of its))"
    using each line_of_shape(4) by auto
  then have "universal_newlines (concat (map line_of its)) = concat (map line_of its)"
    by (rule universal_newlines_id)
  moreover have "file_lines (concat (map line_of its)) = map line_of its"
    using each line_of_shape(1,2,3) by (intro file_lines_lines) auto
  ultimately show ?thesis by simp
qed

text \<open>Every number written by \<open>renumber_items\<close> is tidy.\<close>

lemma join_chars:
  "c \<in> set (join sep ws) \<Longrightarrow> c \<in> set sep \<or> (\<exists>w \<in> set ws. c \<in> set w)"
  by (induction sep ws rule: join.induct) auto

lemma str_nat_nonempty: "str_nat n \<noteq> []"
  by (subst str_nat.simps) simp

lemma join_nonempty: "ws \<noteq> [] \<Longrightarrow> hd ws \<noteq> [] \<Longrightarrow> join sep ws \<noteq> []"
  by (induction sep ws rule: join.induct) auto

lemma number_of_tidy:
  assumes "length cs = 11" "0 \<le> x"
  shows "number_of cs x \<noteq> [] \<and> \<not> list_ex is_space (number_of cs x)"
proof -
  let ?ws = "map str_nat (take (nat x + 1) cs)"
  have ne: "?ws \<noteq> []" using assms by (cases cs) auto
  then have "hd ?ws \<noteq> []" by (simp add: hd_map str_nat_nonempty)
  then have a: "number_of cs x \<noteq> []"
    unfolding number_of_def using ne by (rule join_nonempty[rotated])
  { fix c assume "c \<in> set (number_of cs x)"
    then have "c \<in> set ''.'' \<or> (\<exists>w \<in> set ?ws. c \<in> set w)"
      unfolding number_of_def by (rule join_chars)
    then have "\<not> is_space c"
    proof
      assume "c \<in> set ''.''"
      then show ?thesis by (simp add: is_space_def)
    next
      assume "\<exists>w \<in> set ?ws. c \<in> set w"
      then obtain n where "c \<in> set (str_nat n)" by auto
      from str_nat_chars[OF this] show ?thesis by (simp add: is_space_def Let_def)
    qed }
  then have "\<not> list_ex is_space (number_of cs x)" by (auto simp: list_ex_iff)
  then show ?thesis using a by simp
qed

lemma renumbered_tidy: "levels_ok its \<Longrightarrow> list_all tidy_number (renumbered its)"
proof -
  assume ok: "levels_ok its"
  { fix i assume i: "i < length its"
    have x: "0 \<le> level (its ! i)" using levels_ok_nth[OF ok i] by simp
    have "number (renumbered its ! i) =
          Some (number_of (foldl bump (replicate 11 0) (take (Suc i) (map level its))) (level (its ! i)))"
      using i by (simp add: renumbered_def numbers_from_nth)
    moreover have "length (foldl bump (replicate 11 0) (take (Suc i) (map level its))) = 11"
      by simp
    ultimately have "tidy_number (renumbered its ! i)"
      using number_of_tidy[OF _ x] by (simp add: tidy_number_def)
  }
  then show ?thesis by (simp add: list_all_length)
qed

text \<open>
  Claim C2, amended. For every document whose levels lie in \<open>[0, 10]\<close>, whose numbers
  are tidy and whose contents are normalised (which excludes line breaks),
  \<open>save_to_file\<close> followed by \<open>load_from_file\<close> on the same path, into any manager,
  returns and gives the same sequence of pairs of level and content, with the numbers
  that \<open>renumber_items\<close> computes for the document.
\<close>

theorem save_load_roundtrip:
  assumes ok: "levels_ok (items lm)" and t: "list_all tidy_number (items lm)"
    and n: "list_all (\<lambda>it. normalised (content it)) (items lm)"
  shows "fst (save_to_file fname lm fs) = Inr () \<and>
    fst (load_from_file fname ids (snd (save_to_file fname lm fs)) lm0) = Inr () \<and>
    map (\<lambda>it. (level it, content it))
      (items (snd (load_from_file fname ids (snd (save_to_file fname lm fs)) lm0))) =
      map (\<lambda>it. (level it, content it)) (items lm) \<and>
    map number (items (snd (load_from_file fname ids (snd (save_to_file fname lm fs)) lm0))) =
      map number (items (snd (renumber_items lm)))"
proof -
  let ?start = "lm0\<lparr>items := [], current_position := 0\<rparr>"
  have s: "save_to_file fname lm fs = (Inr (), fs(fname \<mapsto> concat (map line_of (items lm))))"
    using t by (rule save_to_file_ok)
  have "load_lines ids 0 (map line_of (items lm)) ?start =
           (Inr (), ?start\<lparr>items := renumbered (items ?start @ loaded ids 0 (items lm)),
                       current_position := current_position ?start + int (length (items lm))\<rparr>)"
    by (rule load_lines_ok[OF ok t n]) (simp_all add: levels_ok_def renumbered_def)
  then have l: "load_from_file fname ids (fs(fname \<mapsto> concat (map line_of (items lm)))) lm0 =
           (Inr (), ?start\<lparr>items := renumbered (loaded ids 0 (items lm)),
                       current_position := int (length (items lm))\<rparr>)"
    by (simp add: load_from_file_def read_back_lines[OF t n])
  have lv: "map level (loaded ids 0 (items lm)) = map level (items lm)"
    using arg_cong[OF loaded_fields[of ids 0 "items lm"], of "map fst"] by (simp add: o_def)
  have nums: "map number (renumbered (loaded ids 0 (items lm))) =
              map number (items (snd (renumber_items lm)))"
    by (simp only: renumbered_number lv renumber_items_numbers[OF ok])
  show ?thesis
    using nums by (simp add: s l pairs_of_renumbered loaded_fields)
qed

text \<open>Saving and loading the document \<open>Buy milk\<close>, \<open>and eggs\<close>.\<close>

theorem save_load_roundtrip_witness:
  "levels_ok (items shopping) \<and> list_all tidy_number (items shopping) \<and>
   list_all (\<lambda>it. normalised (content it)) (items shopping) \<and>
   map (\<lambda>it. (level it, content it)) (items shopping) = [(0, ''Buy milk''), (1, ''and eggs'')] \<and>
   fst (load_from_file ''list.txt'' (\<lambda>k. ''id'') (snd (save_to_file ''list.txt'' shopping Map.empty)) ListManager) = Inr () \<and>
   map (\<lambda>it. (level it, content it))
     (items (snd (load_from_file ''list.txt'' (\<lambda>k. ''id'') (snd (save_to_file ''list.txt'' shopping Map.empty)) ListManager))) =
     [(0, ''Buy milk''), (1, ''and eggs'')] \<and>
   map number
     (items (snd (load_from_file ''list.txt'' (\<lambda>k. ''id'') (snd (save_to_file ''list.txt'' shopping Map.empty)) ListManager))) =
     map number (items (snd (renumber_items shopping)))"
proof -
  have h: "levels_ok (items shopping)" "list_all tidy_number (items shopping)"
          "list_all (\<lambda>it. normalised (content it)) (items shopping)"
    by (code_simp)+
  have e: "map (\<lambda>it. (level it, content it)) (items shopping) = [(0, ''Buy milk''), (1, ''and eggs'')]"
    by code_simp
  show ?thesis
    using save_load_roundtrip[OF h, of "''list.txt''" Map.empty "\<lambda>k. ''id''" ListManager] h e
    by simp
qed

text \<open>
  Claim C2 as stated fails: the content \<open>a  b\<close> holds no line break, yet comes back
  from the file as \<open>a b\<close>.
\<close>

theorem double_space_not_restored:
  "LF \<notin> set ''a  b'' \<and>
   map (\<lambda>it. (level it, content it)) (items spaced) = [(0, ''a  b'')] \<and>
   fst (save_to_file ''list.txt'' spaced Map.empty) = Inr () \<and>
   snd (save_to_file ''list.txt'' spaced Map.empty) ''list.txt'' = Some (''1 a  b'' @ [LF]) \<and>
   load_from_file ''list.txt'' (\<lambda>k. ''id1'') (snd (save_to_file ''list.txt'' spaced Map.empty)) spaced =
     (Inr (), \<lparr>items = [(ListItem ''a b'' 0 ''id1'')\<lparr>number := Some ''1''\<rparr>], current_position = 1\<rparr>) \<and>
   map (\<lambda>it. (level it, content it))
     (items (snd (load_from_file ''list.txt'' (\<lambda>k. ''id1'')
                    (snd (save_to_file ''list.txt'' spaced Map.empty)) spaced))) \<noteq>
     map (\<lambda>it. (level it, content it)) (items spaced)"
  by code_simp

section \<open>The invariants on the paths that keep them\<close>

lemma renumber_items_length [simp]:
  "length (items (snd (renumber_items lm))) = length (items lm)"
  by (simp add: renumber_items_items)

lemma renumber_items_levels:
  "map level (items (snd (renumber_items lm))) = map level (items lm)"
  using unnumbered_level[OF renumber_items_unnumbered] .

text \<open>
  \<open>add_item\<close> without a level, when \<open>current_position\<close> is within the list and the levels
  lie in \<open>[0, 10]\<close>: the new item takes the level of the item before the cursor (0 at
  the front or in an empty list), is inserted at the cursor and returned, and the
  cursor advances by one.
\<close>

lemma add_item_default:
  assumes ok: "levels_ok (items lm)" and p: "position_ok lm"
  shows "add_item c None new_id lm =
     (Inr (renumbered (take (nat (current_position lm)) (items lm) @
             ListItem c (if items lm = [] \<or> current_position lm = 0 then 0
                         else level (items lm ! (nat (current_position lm) - 1))) new_id #
             drop (nat (current_position lm)) (items lm)) ! nat (current_position lm)),
      lm\<lparr>items := renumbered (take (nat (current_position lm)) (items lm) @
             ListItem c (if items lm = [] \<or> current_position lm = 0 then 0
                         else level (items lm ! (nat (current_position lm) - 1))) new_id #
             drop (nat (current_position lm)) (items lm)),
          current_position := current_position lm + 1\<rparr>)"
proof -
  let ?its = "items lm"
  let ?p = "current_position lm"
  define l where "l = (if ?its = [] \<or> ?p = 0 then 0 else level (?its ! (nat ?p - 1)))"
  define X where "X = take (nat ?p) ?its @ ListItem c l new_id # drop (nat ?p) ?its"
  have pp: "0 \<le> ?p" "?p \<le> int (length ?its)" using p by (simp_all add: position_ok_def)
  have g: "get_recommended_level lm = Inr l"
  proof (cases "?its = [] \<or> ?p = 0")
    case True
    then show ?thesis by (simp add: get_recommended_level_def l_def)
  next
    case False
    then have "py_index (length ?its) (?p - 1) = Some (nat ?p - 1)"
      using pp by (simp add: py_index_def nat_diff_distrib)
    then show ?thesis using False by (simp add: get_recommended_level_def py_get_def l_def)
  qed
  have l: "0 \<le> l \<and> l \<le> 10"
  proof (cases "?its = [] \<or> ?p = 0")
    case True
    then show ?thesis by (simp add: l_def)
  next
    case False
    then have "nat ?p - 1 < length ?its" using pp by linarith
    from levels_ok_nth[OF ok this] show ?thesis using False by (simp add: l_def)
  qed
  have ins: "(if ?p < int (length ?its) then py_insert ?its ?p (ListItem c l new_id)
              else ?its @ [ListItem c l new_id]) = X"
    using pp by (auto simp: py_insert_def Let_def min_def X_def)
  have k: "insert_index lm = nat ?p"
    using pp by (auto simp: insert_index_def Let_def)
  have "levels_ok (take (nat ?p) ?its)" "levels_ok (drop (nat ?p) ?its)"
    using ok by (auto simp: levels_ok_def list_all_iff dest: in_set_takeD in_set_dropD)
  then have okX: "levels_ok X"
    using l by (simp add: levels_ok_def ListItem_def X_def)
  have r: "renumber_items (lm\<lparr>items := X, current_position := ?p + 1\<rparr>) =
        (Inr (), lm\<lparr>items := renumbered X, current_position := ?p + 1\<rparr>)"
    using renumber_items_renumbered[of "lm\<lparr>items := X, current_position := ?p + 1\<rparr>"] okX
    by simp
  have "add_item c None new_id lm =
        (Inr (renumbered X ! nat ?p), lm\<lparr>items := renumbered X, current_position := ?p + 1\<rparr>)"
    unfolding add_item_def by (simp only: g ins k Let_def option.case sum.case r prod.case)
       simp
  then show ?thesis unfolding X_def l_def .
qed

text \<open>
  The cursor invariant is kept by \<open>add_item\<close> (whatever its outcome), by \<open>indent_item\<close>
  and \<open>outdent_item\<close>, and by \<open>delete_item\<close> unless it removes the last remaining item.
\<close>

lemma add_item_position:
  assumes "position_ok lm"
  shows "position_ok (snd (add_item c lvl new_id lm))"
proof (cases "case lvl of None \<Rightarrow> get_recommended_level lm | Some l \<Rightarrow> Inr l")
  case (Inl e)
  then show ?thesis using assms by (simp add: add_item_def)
next
  case (Inr l)
  let ?its = "if current_position lm < int (length (items lm))
              then py_insert (items lm) (current_position lm) (ListItem c l new_id)
              else items lm @ [ListItem c l new_id]"
  let ?lm1 = "lm\<lparr>items := ?its, current_position := current_position lm + 1\<rparr>"
  have len: "length ?its = Suc (length (items lm))"
    using assms by (auto simp: py_insert_def Let_def position_ok_def)
  have "snd (add_item c lvl new_id lm) = snd (renumber_items ?lm1)"
    using Inr by (simp add: add_item_def Let_def split: prod.splits sum.splits)
  then show ?thesis using assms len by (simp add: position_ok_def)
qed

lemma indent_item_position:
  "position_ok lm \<Longrightarrow> position_ok (snd (indent_item i lm))"
  by (simp add: indent_item_def Let_def position_ok_def)

lemma outdent_item_position:
  "position_ok lm \<Longrightarrow> position_ok (snd (outdent_item i lm))"
  by (simp add: outdent_item_def Let_def position_ok_def)

lemma delete_item_position:
  assumes "position_ok lm" "levels_ok (items lm)" "length (items lm) \<noteq> 1"
  shows "position_ok (snd (delete_item i lm))"
proof (cases "0 \<le> i \<and> i < int (length (items lm))")
  case False
  then show ?thesis using assms(1) by (simp add: delete_item_outside)
next
  case True
  then have "2 \<le> length (items lm)" using assms(3) by linarith
  then show ?thesis
    using True assms(1,2) by (simp add: delete_item_ok position_ok_def)
qed

text \<open>
  The level bound is kept by \<open>indent_item\<close>, \<open>outdent_item\<close> and \<open>delete_item\<close>, and by
  \<open>add_item\<close> without a level when the cursor is within the list.
\<close>

lemma indent_item_levels:
  assumes "levels_ok (items lm)"
  shows "levels_ok (items (snd (indent_item i lm)))"
proof (cases "0 \<le> i \<and> i < int (length (items lm))")
  case False
  then show ?thesis using assms by (auto simp: indent_item_def)
next
  case True
  let ?it = "items lm ! nat i"
  have "nat i < length (items lm)" using True by linarith
  then have "0 \<le> level ?it" using levels_ok_nth[OF assms] by simp
  then have "levels_ok ((items lm)[nat i := ?it\<lparr>level := min (level ?it + 1) 10\<rparr>])"
    using assms by (intro levels_ok_update) simp_all
  then have "levels_ok (items (snd (renumber_items
               (lm\<lparr>items := (items lm)[nat i := ?it\<lparr>level := min (level ?it + 1) 10\<rparr>]\<rparr>))))"
    by (simp add: levels_ok_map renumber_items_levels)
  then show ?thesis using True by (simp add: indent_item_def Let_def)
qed

lemma outdent_item_levels:
  assumes "levels_ok (items lm)"
  shows "levels_ok (items (snd (outdent_item i lm)))"
proof (cases "0 \<le> i \<and> i < int (length (items lm))")
  case False
  then show ?thesis using assms by (auto simp: outdent_item_def)
next
  case True
  let ?it = "items lm ! nat i"
  have "nat i < length (items lm)" using True by linarith
  then have "level ?it \<le> 10" using levels_ok_nth[OF assms] by simp
  then have "levels_ok ((items lm)[nat i := ?it\<lparr>level := max (level ?it - 1) 0\<rparr>])"
    using assms by (intro levels_ok_update) simp_all
  then show ?thesis using True assms by (simp add: outdent_item_ok)
qed

lemma delete_item_levels:
  assumes "levels_ok (items lm)"
  shows "levels_ok (items (snd (delete_item i lm)))"
proof (cases "0 \<le> i \<and> i < int (length (items lm))")
  case False
  then show ?thesis using assms by (simp add: delete_item_outside)
next
  case True
  then show ?thesis using assms by (simp add: delete_item_ok levels_ok_delete)
qed

lemma add_item_default_levels:
  "levels_ok (items lm) \<Longrightarrow> position_ok lm \<Longrightarrow>
   levels_ok (items (snd (add_item c None new_id lm)))"
proof -
  assume ok: "levels_ok (items lm)" and p: "position_ok lm"
  let ?its = "items lm"
  let ?p = "current_position lm"
  let ?l = "if ?its = [] \<or> ?p = 0 then 0 else level (?its ! (nat ?p - 1))"
  have l: "0 \<le> ?l \<and> ?l \<le> 10"
  proof (cases "?its = [] \<or> ?p = 0")
    case True
    then show ?thesis by simp
  next
    case False
    then have "nat ?p - 1 < length ?its" using p by (simp add: position_ok_def) linarith
    from levels_ok_nth[OF ok this] show ?thesis using False by simp
  qed
  have "levels_ok (take (nat ?p) ?its)" "levels_ok (drop (nat ?p) ?its)"
    using ok by (auto simp: levels_ok_def list_all_iff dest: in_set_takeD in_set_dropD)
  then have "levels_ok (take (nat ?p) ?its @ ListItem c ?l new_id # drop (nat ?p) ?its)"
    using l by (simp add: levels_ok_def ListItem_def)
  then show ?thesis by (simp only: add_item_default[OF ok p] snd_conv) simp
qed

text \<open>
  \<open>load_from_file\<close> leaves the cursor at the end of the list, whether or not it raises.
\<close>

lemma add_item_level_shape:
  "current_position (snd (add_item c (Some l) new_id lm)) = current_position lm + 1 \<and>
   length (items (snd (add_item c (Some l) new_id lm))) =
     length (if current_position lm < int (length (items lm))
             then py_insert (items lm) (current_position lm) (ListItem c l new_id)
             else items lm @ [ListItem c l new_id])"
proof -
  let ?lm1 = "lm\<lparr>items := (if current_position lm < int (length (items lm))
                          then py_insert (items lm) (current_position lm) (ListItem c l new_id)
                          else items lm @ [ListItem c l new_id]),
                 current_position := current_position lm + 1\<rparr>"
  have "snd (add_item c (Some l) new_id lm) = snd (renumber_items ?lm1)"
    by (simp add: add_item_def Let_def split: prod.splits sum.splits)
  then show ?thesis by simp
qed

lemma load_lines_position:
  "current_position lm = int (length (items lm)) \<Longrightarrow>
   current_position (snd (load_lines ids k ls lm)) =
     int (length (items (snd (load_lines ids k ls lm))))"
proof (induction ls arbitrary: lm k)
  case Nil
  then show ?case by simp
next
  case (Cons line rest)
  show ?case
  proof (cases "strip line \<noteq> []")
    case False
    then show ?thesis using Cons by simp
  next
    case True
    let ?lvl = "(int (length line) - int (length (lstrip line))) div 4"
    let ?c = "join '' '' (tl (split_ws (strip line)))"
    let ?r = "add_item ?c (Some ?lvl) (ids k) lm"
    have p: "current_position (snd ?r) = int (length (items (snd ?r)))"
      using add_item_level_shape[of ?c ?lvl "ids k" lm] Cons.prems by simp
    show ?thesis
    proof (cases "fst ?r")
      case (Inl e)
      then have "load_lines ids k (line # rest) lm = (Inl e, snd ?r)"
        using True by (cases ?r) (simp add: Let_def)
      then show ?thesis using p by simp
    next
      case (Inr it)
      then have "load_lines ids k (line # rest) lm = load_lines ids (Suc k) rest (snd ?r)"
        using True by (cases ?r) (simp add: Let_def)
      then show ?thesis using Cons.IH[OF p] by simp
    qed
  qed
qed

lemma load_from_file_position: "position_ok (snd (load_from_file fname ids fs lm))"
proof (cases "fs fname")
  case None
  then show ?thesis by (simp add: load_from_file_def position_ok_def)
next
  case (Some t)
  have "current_position (snd (load_lines ids 0 (file_lines (universal_newlines t))
                                 (lm\<lparr>items := [], current_position := 0\<rparr>))) =
        int (length (items (snd (load_lines ids 0 (file_lines (universal_newlines t))
                                 (lm\<lparr>items := [], current_position := 0\<rparr>)))))"
    by (rule load_lines_position) simp
  then show ?thesis using Some by (simp add: load_from_file_def position_ok_def)
qed

end
